theory Spec2Isabelle
  imports Complex_Main "HOL-Library.AList" "HOL-Library.Log_Nat"
begin

section \<open>JavaScript primitives used by the video service\<close>

text \<open>
  Strings are lists of characters, and the characters are ASCII. JavaScript numbers are IEEE
  doubles. The numbers of the playlist assembler are integers, and integers of magnitude up
  to \<open>2^53\<close> are exact doubles, so they are modelled by \<open>int\<close> and the theorem about
  their sum carries that bound. \<open>NaN\<close> is \<open>None\<close>. Where the code divides or multiplies
  numbers that need not be integers (the progress formula, the cutoff of the eviction, the
  frame rate), a double is the rational number it stands for and every operation is rounded.
\<close>

subsection \<open>Doubles\<close>

text \<open>
  A finite double is a rational \<open>m * 2^c\<close> with \<open>|m| < 2^53\<close> and \<open>c \<ge> -1074\<close>.
  The result of an arithmetic operation is the double nearest to the exact result, a tie
  going to the even mantissa: with \<open>2^e \<le> |x| < 2^(e+1)\<close>, the exact result \<open>x\<close> is
  rounded to a multiple of \<open>2^(e-52)\<close>, and of \<open>2^(-1074)\<close> below the normal range. The
  overflow to infinity, above \<open>2^1024\<close>, is not modelled.
\<close>

definition expo :: "rat \<Rightarrow> int" where
  "expo x =
     (let (a, b) = quotient_of \<bar>x\<bar>; e0 = bitlen a - bitlen b
      in if 2 powi e0 \<le> \<bar>x\<bar> then e0 else e0 - 1)"

definition rne :: "rat \<Rightarrow> int" where
  "rne z =
     (let f = \<lfloor>z\<rfloor> in
      if z - of_int f < 1 / 2 then f
      else if 1 / 2 < z - of_int f then f + 1
      else if even f then f else f + 1)"

definition fl :: "rat \<Rightarrow> rat" where
  "fl x =
     (if x = 0 then 0
      else (let q = 2 powi (max (expo x) (- 1022) - 52) in of_int (rne (x / q)) * q))"

text \<open>\<open>Math.round\<close>: the nearest integer, a tie going up.\<close>

definition Math_round :: "rat \<Rightarrow> int" where
  "Math_round x = \<lfloor>x + 1 / 2\<rfloor>"

subsection \<open>Strings and numbers\<close>

definition MAX_SAFE :: int where
  "MAX_SAFE = 9007199254740992"

text \<open>Number to string, for a non-negative integer: its decimal digits.\<close>

definition digitChar :: "nat \<Rightarrow> char" where
  "digitChar d = ''0123456789'' ! d"

fun showNat :: "nat \<Rightarrow> string" where
  "showNat n = (if n < 10 then [digitChar n] else showNat (n div 10) @ [digitChar (n mod 10)])"

declare showNat.simps [simp del]

text \<open>Template-literal interpolation \<open>${x}\<close> of a number.\<close>

definition numToString :: "int option \<Rightarrow> string" where
  "numToString x = (case x of
      None \<Rightarrow> ''NaN''
    | Some n \<Rightarrow> (if n < 0 then ''-'' @ showNat (nat (- n)) else showNat (nat n)))"

text \<open>
  \<open>parseInt(s)\<close> without a radix: leading white space is skipped, one sign is read, a
  \<open>0x\<close> or \<open>0X\<close> prefix selects radix 16, the longest prefix of digits of the radix is
  read, and the rest of the string is ignored; with no digit the result is \<open>NaN\<close>.
\<close>

definition isWhiteSpace :: "char \<Rightarrow> bool" where
  "isWhiteSpace c = (c \<in> set [CHR 0x09, CHR 0x0A, CHR 0x0B, CHR 0x0C, CHR 0x0D, CHR 0x20])"

definition digitVal :: "char \<Rightarrow> nat option" where
  "digitVal c =
     (let k = of_char c :: nat in
      if 48 \<le> k \<and> k \<le> 57 then Some (k - 48)
      else if 97 \<le> k \<and> k \<le> 102 then Some (k - 87)
      else if 65 \<le> k \<and> k \<le> 70 then Some (k - 55)
      else None)"

definition isDigitOf :: "nat \<Rightarrow> char \<Rightarrow> bool" where
  "isDigitOf R c = (case digitVal c of None \<Rightarrow> False | Some d \<Rightarrow> d < R)"

definition digitsValue :: "nat \<Rightarrow> string \<Rightarrow> nat" where
  "digitsValue R Z = foldl (\<lambda>a c. a * R + the (digitVal c)) 0 Z"

definition parseInt :: "string \<Rightarrow> int option" where
  "parseInt s =
     (let S = dropWhile isWhiteSpace s;
          sign = (if S \<noteq> [] \<and> hd S = CHR ''-'' then - 1 else 1 :: int);
          S1 = (if S \<noteq> [] \<and> (hd S = CHR ''+'' \<or> hd S = CHR ''-'') then tl S else S);
          hex = (take 2 S1 = ''0x'' \<or> take 2 S1 = ''0X'');
          R = (if hex then 16 else 10 :: nat);
          S2 = (if hex then drop 2 S1 else S1);
          Z = takeWhile (isDigitOf R) S2
      in if Z = [] then None else Some (sign * int (digitsValue R Z)))"

text \<open>\<open>a + b\<close> on numbers: \<open>NaN\<close> is absorbing.\<close>

definition numAdd :: "int option \<Rightarrow> int option \<Rightarrow> int option" where
  "numAdd a b = (case (a, b) of (Some x, Some y) \<Rightarrow> Some (x + y) | _ \<Rightarrow> None)"

text \<open>
  \<open>s.replace(pat, rep)\<close> with a string pattern: only the first occurrence is replaced.
\<close>

fun replace :: "string \<Rightarrow> string \<Rightarrow> string \<Rightarrow> string" where
  "replace pat rep [] = (if pat = [] then rep else [])"
| "replace pat rep (c # cs) =
     (if take (length pat) (c # cs) = pat then rep @ drop (length pat) (c # cs)
      else c # replace pat rep cs)"

text \<open>\<open>lines.join(sep)\<close>.\<close>

fun join :: "string \<Rightarrow> string list \<Rightarrow> string" where
  "join sep [] = []"
| "join sep [x] = x"
| "join sep (x # y # ys) = x @ sep @ join sep (y # ys)"

text \<open>
  \<open>path.join(a, b)\<close>: the segments are joined by a slash. The normalisation of \<open>.\<close>,
  \<open>..\<close> and repeated slashes is not modelled.
\<close>

definition path_join :: "string \<Rightarrow> string \<Rightarrow> string" where
  "path_join a b = a @ ''/'' @ b"

section \<open>Configuration: the bitrate ladder\<close>

record variant =
  resolution :: string
  videoBitrate :: string
  audioBitrate :: string
  name :: string

definition BITRATE_LADDER :: "variant list" where
  "BITRATE_LADDER =
    [\<lparr>resolution = ''426x240'', videoBitrate = ''400k'', audioBitrate = ''64k'', name = ''240p''\<rparr>,
     \<lparr>resolution = ''640x360'', videoBitrate = ''800k'', audioBitrate = ''96k'', name = ''360p''\<rparr>,
     \<lparr>resolution = ''854x480'', videoBitrate = ''1200k'', audioBitrate = ''128k'', name = ''480p''\<rparr>,
     \<lparr>resolution = ''1280x720'', videoBitrate = ''2500k'', audioBitrate = ''128k'', name = ''720p''\<rparr>,
     \<lparr>resolution = ''1920x1080'', videoBitrate = ''5000k'', audioBitrate = ''192k'', name = ''1080p''\<rparr>]"

section \<open>The master playlist\<close>

text \<open>
  \<open>generateMasterPlaylist\<close> reads the ladder from the configuration; here the ladder is
  an argument, so that a reconfigured table can be stated.
\<close>

definition bandwidth :: "variant \<Rightarrow> int option" where
  "bandwidth v = numAdd (parseInt (replace ''k'' ''000'' (videoBitrate v)))
                        (parseInt (replace ''k'' ''000'' (audioBitrate v)))"

definition streamInfLine :: "variant \<Rightarrow> string" where
  "streamInfLine v =
     ''#EXT-X-STREAM-INF:BANDWIDTH='' @ numToString (bandwidth v) @ '',RESOLUTION='' @ resolution v
       @ '',CODECS=\"avc1.42e00a,mp4a.40.2\"''"

definition playlistLine :: "variant \<Rightarrow> string" where
  "playlistLine v = name v @ ''/playlist.m3u8''"

fun pushVariants :: "string list \<Rightarrow> variant list \<Rightarrow> string list" where
  "pushVariants masterContent [] = masterContent"
| "pushVariants masterContent (v # vs) =
     pushVariants (masterContent @ [streamInfLine v, playlistLine v, '''']) vs"

definition masterContent :: "variant list \<Rightarrow> string list" where
  "masterContent ladder = pushVariants [''#EXTM3U'', ''#EXT-X-VERSION:3'', ''''] ladder"

definition masterPlaylistText :: "variant list \<Rightarrow> string" where
  "masterPlaylistText ladder = join ''\<newline>'' (masterContent ladder)"

section \<open>Processing jobs and the job registry\<close>

datatype job_status = queued | processing | completed | failed

fun status_literal :: "job_status \<Rightarrow> string" where
  "status_literal queued = ''queued''"
| "status_literal processing = ''processing''"
| "status_literal completed = ''completed''"
| "status_literal failed = ''failed''"

text \<open>
  A time stamp is written with \<open>toISOString\<close> and read back with \<open>getTime\<close>; it is
  modelled by the milliseconds since the epoch that both stand for. An optional field is an
  \<open>option\<close>.
\<close>

record VideoProcessingJob =
  job_id :: string
  videoId :: string
  status :: job_status
  progress :: int
  startedAt :: "int option"
  completedAt :: "int option"
  error :: "string option"
  outputPaths :: "string list"

text \<open>
  \<open>processingJobs\<close> is a \<open>Map\<close>: keys are unique and entries keep their insertion
  order, so it is an association list.
\<close>

type_synonym registry = "(string \<times> VideoProcessingJob) list"

definition setJob :: "string \<Rightarrow> VideoProcessingJob \<Rightarrow> registry \<Rightarrow> registry" where
  "setJob jobId j jobs = AList.update jobId j jobs"

definition getProcessingJob :: "registry \<Rightarrow> string \<Rightarrow> VideoProcessingJob option" where
  "getProcessingJob jobs jobId = map_of jobs jobId"





section \<open>The conversion pipeline\<close>

text \<open>
  One call of \<open>convertToHLS\<close> is a state machine driven by the events of its
  collaborators: the encoder commands (one per ladder entry), the file system and the
  thumbnail command. The clock is read where the code reads it, and is an argument.

  The state holds the job object, the local array \<open>outputPaths\<close> of the function, the
  promise of each ladder entry, the point the function has reached, and the files written.
  A thrown value is an \<open>Error\<close> with its message, or something else.
\<close>

datatype js_error = Error string | NonError

fun errorMessage :: "js_error \<Rightarrow> string" where
  "errorMessage (Error message) = message"
| "errorMessage NonError = ''Unknown error''"

datatype promise = Pending | Fulfilled | Rejected js_error

datatype phase =
    AwaitVariants
  | AwaitMasterWrite
  | AwaitThumbnail
  | Resolved "string list"
  | RejectedWith js_error

record request =
  ladder :: "variant list"
  inputPath :: string
  outputDir :: string
  reqVideoId :: string

record conversion =
  job :: VideoProcessingJob
  localOutputPaths :: "string list"
  promises :: "promise list"
  phase :: phase
  files :: "string \<rightharpoonup> string"

text \<open>
  The events: \<open>progress\<close> of the command at a ladder index with its \<open>percent\<close>
  (\<open>None\<close> when undefined or \<open>NaN\<close>), its \<open>end\<close>, and its \<open>error\<close> (or the failure
  of \<open>mkdir\<close> for its directory, which rejects the same promise); the end of
  \<open>fs.writeFile\<close> for the master playlist, well or with an error, after which the file is
  taken to be as it was; and the \<open>end\<close> or \<open>error\<close> of the thumbnail command.
\<close>

datatype event =
    Progress nat "rat option"
  | End nat
  | Err nat js_error
  | MasterWritten
  | MasterWriteFailed js_error
  | ThumbnailEnd
  | ThumbnailError js_error

definition masterPlaylistPath :: "request \<Rightarrow> string" where
  "masterPlaylistPath r = path_join (outputDir r) ''master.m3u8''"

definition playlistPath :: "request \<Rightarrow> nat \<Rightarrow> string" where
  "playlistPath r index = path_join (path_join (outputDir r) (name (ladder r ! index))) ''playlist.m3u8''"

definition thumbnailPath :: "request \<Rightarrow> string" where
  "thumbnailPath r = path_join (outputDir r) ''thumbnail.jpg''"

text \<open>The job is created, stored in the registry, and the encoders are started.\<close>

definition newJob :: "request \<Rightarrow> string \<Rightarrow> int \<Rightarrow> VideoProcessingJob" where
  "newJob r jobId now =
     \<lparr>job_id = jobId, videoId = reqVideoId r, status = processing, progress = 0,
      startedAt = Some now, completedAt = None, error = None, outputPaths = []\<rparr>"

definition convertToHLS_start ::
  "request \<Rightarrow> string \<Rightarrow> int \<Rightarrow> (string \<rightharpoonup> string) \<Rightarrow> registry \<Rightarrow> registry \<times> conversion" where
  "convertToHLS_start r jobId now fs jobs =
     (setJob jobId (newJob r jobId now) jobs,
      \<lparr>job = newJob r jobId now, localOutputPaths = [],
       promises = replicate (length (ladder r)) Pending,
       phase = (if ladder r = [] then AwaitMasterWrite else AwaitVariants),
       files = fs\<rparr>)"

text \<open>
  \<open>x || 0\<close> on an optional number, as in \<open>progress.percent || 0\<close>: an undefined,
  \<open>NaN\<close> or zero value is 0.
\<close>

definition orZero :: "'a::zero option \<Rightarrow> 'a" where
  "orZero x = (case x of None \<Rightarrow> 0 | Some v \<Rightarrow> v)"

text \<open>
  The value of the progress handler,
  \<open>Math.round(((index + (progress.percent || 0) / 100) / N) * 100)\<close>: the division by 100,
  the sum, the division by the length of the ladder and the multiplication by 100 are each
  rounded to a double, and the last double is rounded to an integer. The ladder is not
  empty when a handler runs.
\<close>

definition overallProgress :: "nat \<Rightarrow> rat option \<Rightarrow> nat \<Rightarrow> int" where
  "overallProgress index percent N =
     Math_round (fl (fl (fl (of_nat index + fl (orZero percent / 100)) / of_nat N) * 100))"

definition onProgress :: "request \<Rightarrow> nat \<Rightarrow> rat option \<Rightarrow> conversion \<Rightarrow> conversion" where
  "onProgress r index percent s =
     s\<lparr>job := (job s)\<lparr>progress := overallProgress index percent (length (ladder r))\<rparr>\<rparr>"

text \<open>The \<open>catch\<close> branch of \<open>convertToHLS\<close>.\<close>

definition catchBranch :: "int \<Rightarrow> js_error \<Rightarrow> conversion \<Rightarrow> conversion" where
  "catchBranch now e s =
     s\<lparr>job := (job s)\<lparr>status := failed, error := Some (errorMessage e), completedAt := Some now\<rparr>,
       phase := RejectedWith e\<rparr>"

text \<open>
  Settling the promise of one variant. \<open>Promise.all\<close> is fulfilled once every variant is,
  and the function goes on to write the master playlist; it is rejected by the first
  rejection, and the function goes to its \<open>catch\<close> branch. A promise settles once.
\<close>

definition resolveVariant :: "nat \<Rightarrow> conversion \<Rightarrow> conversion" where
  "resolveVariant index s =
     (if promises s ! index = Pending then
        (let ps = (promises s)[index := Fulfilled] in
         if phase s = AwaitVariants \<and> (\<forall>p \<in> set ps. p = Fulfilled)
         then s\<lparr>promises := ps, phase := AwaitMasterWrite\<rparr>
         else s\<lparr>promises := ps\<rparr>)
      else s)"

definition rejectVariant :: "int \<Rightarrow> nat \<Rightarrow> js_error \<Rightarrow> conversion \<Rightarrow> conversion" where
  "rejectVariant now index e s =
     (if promises s ! index = Pending then
        (let s' = s\<lparr>promises := (promises s)[index := Rejected e]\<rparr> in
         if phase s = AwaitVariants then catchBranch now e s' else s')
      else s)"

definition onEnd :: "request \<Rightarrow> nat \<Rightarrow> conversion \<Rightarrow> conversion" where
  "onEnd r index s =
     resolveVariant index (s\<lparr>localOutputPaths := localOutputPaths s @ [playlistPath r index]\<rparr>)"

definition onError :: "int \<Rightarrow> nat \<Rightarrow> js_error \<Rightarrow> conversion \<Rightarrow> conversion" where
  "onError now index e s = rejectVariant now index e s"

text \<open>
  After the join: \<open>generateMasterPlaylist\<close> writes the file and the path is pushed; then
  \<open>generateThumbnail\<close> yields the thumbnail path on \<open>end\<close> and \<open>null\<close> on \<open>error\<close>; then
  the job is updated.
\<close>

definition generateMasterPlaylist :: "request \<Rightarrow> conversion \<Rightarrow> conversion" where
  "generateMasterPlaylist r s =
     s\<lparr>files := (files s)(masterPlaylistPath r \<mapsto> masterPlaylistText (ladder r))\<rparr>"

definition afterMasterPlaylist :: "request \<Rightarrow> conversion \<Rightarrow> conversion" where
  "afterMasterPlaylist r s =
     (generateMasterPlaylist r s)
       \<lparr>localOutputPaths := localOutputPaths s @ [masterPlaylistPath r], phase := AwaitThumbnail\<rparr>"

fun generateThumbnail :: "request \<Rightarrow> event \<Rightarrow> string option" where
  "generateThumbnail r ThumbnailEnd = Some (thumbnailPath r)"
| "generateThumbnail r _ = None"

definition afterThumbnail :: "int \<Rightarrow> string option \<Rightarrow> conversion \<Rightarrow> conversion" where
  "afterThumbnail now thumbnail s =
     (let paths = (case thumbnail of
                     Some p \<Rightarrow> localOutputPaths s @ [p]
                   | None \<Rightarrow> localOutputPaths s)
      in s\<lparr>localOutputPaths := paths,
           job := (job s)\<lparr>status := completed, progress := 100, completedAt := Some now,
                          outputPaths := paths\<rparr>,
           phase := Resolved paths\<rparr>)"

text \<open>
  The event loop. An encoder command emits \<open>progress\<close> while it runs and then one of
  \<open>end\<close> and \<open>error\<close>, so its handlers are called while its promise is pending; the
  commands of the other ladder entries go on after a rejection, and their handlers are still
  called. The write and the thumbnail are awaited one after the other. An event that cannot
  occur in the state leaves it as it is.
\<close>

definition running :: "conversion \<Rightarrow> nat \<Rightarrow> bool" where
  "running s index = (index < length (promises s) \<and> promises s ! index = Pending)"

fun step :: "request \<Rightarrow> int \<Rightarrow> event \<Rightarrow> conversion \<Rightarrow> conversion" where
  "step r now (Progress index percent) s = (if running s index then onProgress r index percent s else s)"
| "step r now (End index) s = (if running s index then onEnd r index s else s)"
| "step r now (Err index e) s = (if running s index then onError now index e s else s)"
| "step r now MasterWritten s = (if phase s = AwaitMasterWrite then afterMasterPlaylist r s else s)"
| "step r now (MasterWriteFailed e) s = (if phase s = AwaitMasterWrite then catchBranch now e s else s)"
| "step r now ThumbnailEnd s =
     (if phase s = AwaitThumbnail then afterThumbnail now (generateThumbnail r ThumbnailEnd) s else s)"
| "step r now (ThumbnailError e) s =
     (if phase s = AwaitThumbnail then afterThumbnail now (generateThumbnail r (ThumbnailError e)) s else s)"

fun run :: "request \<Rightarrow> conversion \<Rightarrow> (int \<times> event) list \<Rightarrow> conversion" where
  "run r s [] = s"
| "run r s ((now, ev) # evs) = run r (step r now ev s) evs"

definition convertToHLS ::
  "request \<Rightarrow> string \<Rightarrow> int \<Rightarrow> (string \<rightharpoonup> string) \<Rightarrow> (int \<times> event) list \<Rightarrow> conversion" where
  "convertToHLS r jobId now fs evs = run r (snd (convertToHLS_start r jobId now fs [])) evs"

text \<open>The formula of the specification for the progress of the job.\<close>

definition spec_jobProgress :: "nat \<Rightarrow> rat \<Rightarrow> nat \<Rightarrow> int" where
  "spec_jobProgress i p N = round (100 * (of_nat i + p) / of_nat N)"






section \<open>The metadata prober and the upload handler\<close>

text \<open>
  What \<open>ffprobe\<close> reports, with the fields the service reads; each of them may be
  missing. A stream has a kind, pixel dimensions, a codec name and a frame rate written as
  a fraction; the container has a duration in seconds, a size in bytes and a bit rate.
\<close>

record ffprobe_stream =
  codec_type :: "string option"
  stream_width :: "int option"
  stream_height :: "int option"
  codec_name :: "string option"
  r_frame_rate :: "string option"

record ffprobe_format =
  format_duration :: "rat option"
  format_size :: "int option"
  bit_rate :: "int option"

record ffprobe_data =
  streams :: "ffprobe_stream list"
  format :: ffprobe_format

text \<open>
  A number that may not be finite: the result of a division and of \<open>Math.round\<close> on it.
\<close>

datatype number = Finite int | NaN | PosInfinity | NegInfinity

text \<open>\<open>s || d\<close> on an optional string: undefined and the empty string give \<open>d\<close>.\<close>

definition orString :: "string option \<Rightarrow> string \<Rightarrow> string" where
  "orString x d = (case x of None \<Rightarrow> d | Some s \<Rightarrow> if s = [] then d else s)"

text \<open>\<open>s.split(sep)\<close> for a separator of one character.\<close>

fun split :: "char \<Rightarrow> string \<Rightarrow> string list" where
  "split sep [] = [[]]"
| "split sep (c # cs) =
     (if c = sep then [] # split sep cs
      else (case split sep cs of [] \<Rightarrow> [[c]] | w # ws \<Rightarrow> (c # w) # ws))"

text \<open>
  \<open>Math.round(a / b)\<close> for the results of two \<open>parseInt\<close> calls: the quotient is
  rounded to a double, and that to an integer. A division by zero is infinite with the sign
  of the numerator (a negative zero is not told from zero), and \<open>0 / 0\<close> is \<open>NaN\<close>.
\<close>

definition roundQuotient :: "int option \<Rightarrow> int option \<Rightarrow> number" where
  "roundQuotient a b =
     (case (a, b) of
        (Some x, Some y) \<Rightarrow>
          if y = 0 then (if x = 0 then NaN else if 0 < x then PosInfinity else NegInfinity)
          else Finite (Math_round (fl (of_int x / of_int y)))
      | _ \<Rightarrow> NaN)"

definition parseFrameRate :: "string option \<Rightarrow> number" where
  "parseFrameRate frameRateStr =
     (case frameRateStr of
        None \<Rightarrow> Finite 0
      | Some s \<Rightarrow>
          if s = [] then Finite 0
          else (let parts = split CHR ''/'' s;
                    num = hd parts;
                    den = (case tl parts of [] \<Rightarrow> ''1'' | d # _ \<Rightarrow> d)
                in roundQuotient (parseInt (orString (Some num) ''0''))
                                 (parseInt (orString (Some den) ''1''))))"

text \<open>
  The result of \<open>getVideoMetadata\<close>: the eight fields it fills. A field read with
  \<open>parseInt\<close> may be \<open>NaN\<close>, which is \<open>None\<close>.
\<close>

record probed =
  probed_duration :: rat
  probed_size :: "int option"
  probed_width :: int
  probed_height :: int
  probed_bitrate :: "int option"
  probed_codec :: string
  probed_audioCodec :: string
  probed_frameRate :: number

definition getVideoMetadata :: "js_error + ffprobe_data \<Rightarrow> js_error + probed" where
  "getVideoMetadata ffprobe =
     (case ffprobe of
        Inl err \<Rightarrow> Inl err
      | Inr metadata \<Rightarrow>
          (let videoStream = find (\<lambda>s. codec_type s = Some ''video'') (streams metadata);
               audioStream = find (\<lambda>s. codec_type s = Some ''audio'') (streams metadata)
           in case videoStream of
                None \<Rightarrow> Inl (Error ''No video stream found'')
              | Some vs \<Rightarrow>
                  Inr \<lparr>probed_duration = orZero (format_duration (format metadata)),
                       probed_size =
                         parseInt (orString (map_option (\<lambda>n. numToString (Some n))
                                               (format_size (format metadata))) ''0''),
                       probed_width = orZero (stream_width vs),
                       probed_height = orZero (stream_height vs),
                       probed_bitrate =
                         parseInt (orString (map_option (\<lambda>n. numToString (Some n))
                                               (bit_rate (format metadata))) ''0''),
                       probed_codec = orString (codec_name vs) ''unknown'',
                       probed_audioCodec =
                         orString (case audioStream of None \<Rightarrow> None | Some a \<Rightarrow> codec_name a)
                           ''unknown'',
                       probed_frameRate = parseFrameRate (r_frame_rate vs)\<rparr>))"

datatype processing_status = pending | in_processing | processed | processing_failed

record VideoMetadata =
  video_id :: string
  filename :: string
  originalName :: string
  video_format :: string
  duration :: rat
  fileSize :: "int option"
  width :: int
  height :: int
  bitrate :: "int option"
  codec :: string
  audioCodec :: "string option"
  frameRate :: number
  createdAt :: int
  updatedAt :: int
  hlsPath :: "string option"
  thumbnail :: "string option"
  isProcessed :: bool
  processingStatus :: processing_status

text \<open>
  The uploaded file: its original name, the extension of that name without the dot
  (\<open>path.extname(originalname).slice(1)\<close>), its size and its path.
\<close>

record uploaded_file =
  originalname :: string
  extension :: string
  uploaded_size :: int
  uploaded_path :: string

datatype app_error = AppError string nat string

definition initialMetadata :: "uploaded_file \<Rightarrow> string \<Rightarrow> int \<Rightarrow> VideoMetadata" where
  "initialMetadata file vid now =
     \<lparr>video_id = vid, filename = vid @ ''.'' @ extension file,
      originalName = originalname file, video_format = extension file,
      duration = 0, fileSize = Some (uploaded_size file), width = 0, height = 0,
      bitrate = Some 0, codec = ''unknown'', audioCodec = None, frameRate = Finite 0,
      createdAt = now, updatedAt = now, hlsPath = None, thumbnail = None,
      isProcessed = False, processingStatus = pending\<rparr>"

text \<open>\<open>Object.assign(videoMetadata, metadata)\<close>.\<close>

definition assignProbed :: "VideoMetadata \<Rightarrow> probed \<Rightarrow> VideoMetadata" where
  "assignProbed videoMetadata metadata =
     videoMetadata\<lparr>duration := probed_duration metadata, fileSize := probed_size metadata,
       width := probed_width metadata, height := probed_height metadata,
       bitrate := probed_bitrate metadata, codec := probed_codec metadata,
       audioCodec := Some (probed_audioCodec metadata),
       frameRate := probed_frameRate metadata\<rparr>"

text \<open>
  \<open>uploadVideo\<close> up to the point where the metadata is stored and the conversion is
  started: the result is the stored metadata, or the error thrown for a missing file. An
  error of the prober is caught and logged.
\<close>

definition uploadVideo ::
  "uploaded_file option \<Rightarrow> string \<Rightarrow> int \<Rightarrow> js_error + ffprobe_data \<Rightarrow> app_error + VideoMetadata" where
  "uploadVideo file vid now ffprobe =
     (case file of
        None \<Rightarrow> Inl (AppError ''No video file provided'' 400 ''MISSING_VIDEO_FILE'')
      | Some f \<Rightarrow>
          (let videoMetadata = initialMetadata f vid now
           in case getVideoMetadata ffprobe of
                Inl err \<Rightarrow> Inr videoMetadata
              | Inr metadata \<Rightarrow> Inr (assignProbed videoMetadata metadata)))"

text \<open>A probe that fails, and one that finds a video stream with nothing but its codec.\<close>

definition bareStream :: ffprobe_stream where
  "bareStream =
     \<lparr>codec_type = Some ''video'', stream_width = None, stream_height = None,
      codec_name = Some ''h264'', r_frame_rate = None\<rparr>"

definition bareProbe :: ffprobe_data where
  "bareProbe =
     \<lparr>streams = [bareStream],
      format = \<lparr>format_duration = Some (25 / 2), format_size = None, bit_rate = None\<rparr>\<rparr>"

definition uploadedFile :: uploaded_file where
  "uploadedFile =
     \<lparr>originalname = ''clip.mp4'', extension = ''mp4'', uploaded_size = 1048576,
      uploaded_path = ''videos/upload-1''\<rparr>"

text \<open>
  The master playlist as the specification writes it: the two header lines, then for each
  ladder entry a blank line, the stream line and the playlist line, and a last empty line;
  the lines are joined by line feeds.
\<close>

definition spec_block :: "variant \<Rightarrow> string list" where
  "spec_block v =
     ['''',
      ''#EXT-X-STREAM-INF:BANDWIDTH='' @ numToString (bandwidth v) @ '',RESOLUTION='' @ resolution v
        @ '',CODECS=\"avc1.42e00a,mp4a.40.2\"'',
      name v @ ''/playlist.m3u8'']"

definition spec_master :: "variant list \<Rightarrow> string" where
  "spec_master l =
     join ''\<newline>'' ([''#EXTM3U'', ''#EXT-X-VERSION:3''] @ concat (map spec_block l) @ [''''])"

section \<open>Scenarios\<close>

definition scenarioLadder :: "variant list" where
  "scenarioLadder =
    [\<lparr>resolution = ''426x240'', videoBitrate = ''400k'', audioBitrate = ''64k'', name = ''240p''\<rparr>,
     \<lparr>resolution = ''640x360'', videoBitrate = ''800k'', audioBitrate = ''96k'', name = ''360p''\<rparr>]"

definition scenarioRequest :: request where
  "scenarioRequest =
     \<lparr>ladder = scenarioLadder, inputPath = ''videos/v1.mp4'', outputDir = ''hls/v1'',
      reqVideoId = ''v1''\<rparr>"

definition defaultRequest :: request where
  "defaultRequest =
     \<lparr>ladder = BITRATE_LADDER, inputPath = ''videos/v1.mp4'', outputDir = ''hls/v1'',
      reqVideoId = ''v1''\<rparr>"

text \<open>Both renditions succeed, the second one first; the thumbnail is extracted.\<close>

definition scenarioEvents :: "(int \<times> event) list" where
  "scenarioEvents =
     [(1, Progress 0 (Some 50)), (2, End 1), (3, End 0), (4, MasterWritten), (5, ThumbnailEnd)]"

text \<open>The first rendition succeeds and the second one fails.\<close>

definition failureEvents :: "(int \<times> event) list" where
  "failureEvents = [(1, Progress 1 (Some 30)), (2, End 0)]"

section \<open>Invariants of a conversion\<close>

definition allFulfilled :: "conversion \<Rightarrow> bool" where
  "allFulfilled s = (\<forall>p \<in> set (promises s). p = Fulfilled)"

definition written :: "request \<Rightarrow> (string \<rightharpoonup> string) \<Rightarrow> (string \<rightharpoonup> string)" where
  "written r fs = fs(masterPlaylistPath r \<mapsto> masterPlaylistText (ladder r))"

text \<open>What each phase of the function implies for the job, the files and the promises.\<close>

definition inv :: "request \<Rightarrow> (string \<rightharpoonup> string) \<Rightarrow> conversion \<Rightarrow> bool" where
  "inv r fs s =
     (length (promises s) = length (ladder r) \<and>
      (case phase s of
         AwaitVariants \<Rightarrow>
           status (job s) = processing \<and> outputPaths (job s) = [] \<and> files s = fs \<and>
           (\<forall>p \<in> set (promises s). p = Pending \<or> p = Fulfilled)
       | AwaitMasterWrite \<Rightarrow>
           status (job s) = processing \<and> outputPaths (job s) = [] \<and> files s = fs \<and> allFulfilled s
       | AwaitThumbnail \<Rightarrow>
           status (job s) = processing \<and> outputPaths (job s) = [] \<and> files s = written r fs \<and>
           allFulfilled s
       | Resolved ps \<Rightarrow>
           status (job s) = completed \<and> progress (job s) = 100 \<and> outputPaths (job s) = ps \<and>
           localOutputPaths s = ps \<and> files s = written r fs \<and> allFulfilled s
       | RejectedWith e \<Rightarrow>
           status (job s) = failed \<and> outputPaths (job s) = [] \<and>
           error (job s) = Some (errorMessage e) \<and> files s = fs \<and>
           (allFulfilled s \<or> (\<exists>i < length (promises s). promises s ! i = Rejected e))))"

text \<open>The paths collected so far.\<close>

definition artifacts :: "request \<Rightarrow> string set" where
  "artifacts r = playlistPath r ` {..<length (ladder r)} \<union> {masterPlaylistPath r}"

definition pathsInv :: "request \<Rightarrow> conversion \<Rightarrow> bool" where
  "pathsInv r s =
     (case phase s of
        AwaitThumbnail \<Rightarrow> set (localOutputPaths s) = artifacts r
      | Resolved ps \<Rightarrow> artifacts r \<subseteq> set ps \<and> set ps \<subseteq> artifacts r \<union> {thumbnailPath r}
      | _ \<Rightarrow> set (localOutputPaths s) =
               playlistPath r ` {i. i < length (ladder r) \<and> promises s ! i = Fulfilled})"

text \<open>The progress events.\<close>

fun isProgress :: "event \<Rightarrow> bool" where
  "isProgress (Progress index percent) = True"
| "isProgress _ = False"

section \<open>Properties of the primitives\<close>

lemma showNat_small: "n < 10 \<Longrightarrow> showNat n = [digitChar n]"
  by (simp add: showNat.simps)

lemma showNat_big: "\<not> n < 10 \<Longrightarrow> showNat n = showNat (n div 10) @ [digitChar (n mod 10)]"
  by (subst showNat.simps) simp

lemma digitVal_digitChar: "d < 10 \<Longrightarrow> digitVal (digitChar d) = Some d"
proof -
  assume "d < 10"
  then have "d \<in> {0,1,2,3,4,5,6,7,8,9}" by auto
  then show ?thesis by (auto simp: digitVal_def digitChar_def)
qed

lemma isDigitOf_digitChar: "d < 10 \<Longrightarrow> isDigitOf 10 (digitChar d)"
  by (simp add: isDigitOf_def digitVal_digitChar)

lemma showNat_digits: "c \<in> set (showNat n) \<Longrightarrow> isDigitOf 10 c"
proof (induction n arbitrary: c rule: showNat.induct)
  case (1 n)
  show ?case
  proof (cases "n < 10")
    case True
    with "1.prems" show ?thesis by (auto simp: showNat_small isDigitOf_digitChar)
  next
    case False
    with "1.prems" "1.IH" show ?thesis by (auto simp: showNat_big isDigitOf_digitChar)
  qed
qed

lemma showNat_nonempty: "showNat n \<noteq> []"
  by (cases "n < 10") (simp_all add: showNat_small showNat_big)

lemma digitsValue_snoc: "digitsValue R (Z @ [c]) = digitsValue R Z * R + the (digitVal c)"
  by (simp add: digitsValue_def)

lemma digitsValue_showNat: "digitsValue 10 (showNat n) = n"
proof (induction n rule: showNat.induct)
  case (1 n)
  show ?case
  proof (cases "n < 10")
    case True
    then show ?thesis by (simp add: showNat_small digitsValue_def digitVal_digitChar)
  next
    case False
    with "1.IH" show ?thesis
      by (simp add: showNat_big digitsValue_snoc digitVal_digitChar)
  qed
qed

lemma isDigitOf_10_cases:
  "isDigitOf 10 c \<Longrightarrow>
     c \<noteq> CHR ''k'' \<and> c \<noteq> CHR ''x'' \<and> c \<noteq> CHR ''X'' \<and> c \<noteq> CHR ''+'' \<and> c \<noteq> CHR ''-''
     \<and> \<not> isWhiteSpace c"
  by (auto simp: isDigitOf_def digitVal_def isWhiteSpace_def Let_def split: if_splits)

lemma replace_suffix:
  "pat \<noteq> [] \<Longrightarrow> hd pat \<notin> set ds \<Longrightarrow> replace pat rep (ds @ pat) = ds @ rep"
proof (induction ds)
  case Nil
  then show ?case by (cases pat) auto
next
  case (Cons d ds)
  then have "take (length pat) (d # ds @ pat) \<noteq> pat" by (cases pat) auto
  with Cons show ?case by simp
qed

text \<open>A string of decimal digits is read as the number it writes.\<close>

lemma parseInt_decimal:
  assumes "Z \<noteq> []" and "\<forall>c\<in>set Z. isDigitOf 10 c"
  shows "parseInt Z = Some (int (digitsValue 10 Z))"
proof -
  from assms obtain z zs where Z: "Z = z # zs" by (cases Z) auto
  with assms have z: "isDigitOf 10 z" by simp
  have ws: "dropWhile isWhiteSpace Z = Z" using Z z isDigitOf_10_cases by simp
  have hx: "take 2 Z \<noteq> ''0x''" "take 2 Z \<noteq> ''0X''"
  proof -
    { fix p assume "take 2 Z = [CHR ''0'', p]"
      then have "p \<in> set (take 2 Z)" by simp
      then have "p \<in> set Z" by (rule in_set_takeD)
      with assms have "isDigitOf 10 p" by simp }
    then show "take 2 Z \<noteq> ''0x''" "take 2 Z \<noteq> ''0X''"
      using isDigitOf_10_cases by blast+
  qed
  have tw: "takeWhile (isDigitOf 10) Z = Z" using assms by (simp add: takeWhile_eq_all_conv)
  have h: "hd Z \<noteq> CHR ''-''" "hd Z \<noteq> CHR ''+''" using Z isDigitOf_10_cases [OF z] by simp_all
  show ?thesis
    unfolding parseInt_def Let_def ws using h hx assms(1) by (simp add: tw)
qed

lemma digitsValue_append_zeros: "digitsValue 10 (Z @ ''000'') = digitsValue 10 Z * 1000"
  by (simp add: digitsValue_def digitVal_def)

lemma parseInt_kilo: "parseInt (replace ''k'' ''000'' (showNat n @ ''k'')) = Some (int n * 1000)"
proof -
  have "CHR ''k'' \<notin> set (showNat n)" using showNat_digits isDigitOf_10_cases by blast
  then have r: "replace ''k'' ''000'' (showNat n @ ''k'') = showNat n @ ''000''"
    using replace_suffix [of "''k''" "showNat n" "''000''"] by simp
  have d: "\<forall>c\<in>set (showNat n @ ''000''). isDigitOf 10 c"
    using showNat_digits by (auto simp: isDigitOf_def digitVal_def)
  have "parseInt (showNat n @ ''000'') = Some (int (digitsValue 10 (showNat n @ ''000'')))"
    by (rule parseInt_decimal) (use d showNat_nonempty in auto)
  then show ?thesis by (simp add: r digitsValue_append_zeros digitsValue_showNat)
qed

section \<open>Properties of the doubles\<close>

lemma powi_numeral: "(2::rat) powi (numeral n) = 2 ^ numeral n"
  "(2::rat) powi (- numeral n) = 1 / 2 ^ numeral n"
  by (simp_all add: power_int_def power_one_over inverse_eq_divide)

lemma powi_pos: "(0::rat) < 2 powi n"
  by (rule zero_less_power_int) simp

lemma powi_mono: "a \<le> b \<Longrightarrow> (2::rat) powi a \<le> 2 powi b"
  by (rule power_int_increasing) simp_all

lemma powi_strict_mono: "a < b \<Longrightarrow> (2::rat) powi a < 2 powi b"
  by (rule power_int_strict_increasing) simp_all

lemma expo_unique_aux:
  assumes "(2::rat) powi e \<le> y" "y < 2 powi (e + 1)" "2 powi e' \<le> y" "y < 2 powi (e' + 1)"
  shows "e = e'"
proof (rule ccontr)
  assume "e \<noteq> e'"
  then consider "e + 1 \<le> e'" | "e' + 1 \<le> e" by linarith
  then show False
  proof cases
    case 1
    then have "(2::rat) powi (e + 1) \<le> 2 powi e'" by (rule powi_mono)
    with assms show False by linarith
  next
    case 2
    then have "(2::rat) powi (e' + 1) \<le> 2 powi e" by (rule powi_mono)
    with assms show False by linarith
  qed
qed

lemma of_int_bitlen:
  assumes "0 < a"
  shows "(2::rat) powi (bitlen a - 1) \<le> of_int a" "(of_int a :: rat) < 2 powi (bitlen a)"
proof -
  from bitlen_bounds [OF assms]
  have l: "2 ^ nat (bitlen a - 1) \<le> a" and u: "a < 2 ^ nat (bitlen a)" by simp_all
  have p: "1 \<le> bitlen a" using assms bitlen_eq_zero_iff [of a] bitlen_nonneg [of a] by linarith
  from l have "(of_int (2 ^ nat (bitlen a - 1)) :: rat) \<le> of_int a" by (simp only: of_int_le_iff)
  then show "(2::rat) powi (bitlen a - 1) \<le> of_int a" using p by (simp add: power_int_def)
  from u have "(of_int a :: rat) < of_int (2 ^ nat (bitlen a))" by (simp only: of_int_less_iff)
  then show "(of_int a :: rat) < 2 powi (bitlen a)" using p by (simp add: power_int_def)
qed

lemma expo_bounds:
  assumes "x \<noteq> 0"
  shows "2 powi (expo x) \<le> \<bar>x\<bar>" "\<bar>x\<bar> < 2 powi (expo x + 1)"
proof -
  obtain a b where q: "quotient_of \<bar>x\<bar> = (a, b)" by (cases "quotient_of \<bar>x\<bar>")
  then have b: "0 < b" using quotient_of_denom_pos by blast
  from q have x: "\<bar>x\<bar> = of_int a / of_int b" by (rule quotient_of_div)
  from assms have "0 < \<bar>x\<bar>" by simp
  with x b have a: "0 < a" by (simp add: zero_less_divide_iff)
  let ?e0 = "bitlen a - bitlen b"
  note A = of_int_bitlen [OF a] and B = of_int_bitlen [OF b]
  have bpos: "(0::rat) < of_int b" using b by simp
  have up: "\<bar>x\<bar> < 2 powi (?e0 + 1)"
  proof -
    have "of_int a / of_int b < (2::rat) powi (bitlen a) / of_int b"
      using A(2) bpos by (simp add: divide_strict_right_mono)
    also have "\<dots> \<le> 2 powi (bitlen a) / 2 powi (bitlen b - 1)"
    proof (rule divide_left_mono)
      show "2 powi (bitlen b - 1) \<le> (of_int b :: rat)" by (rule B(1))
      show "(0::rat) \<le> 2 powi bitlen a" using powi_pos [of "bitlen a"] by linarith
      show "(0::rat) < of_int b * 2 powi (bitlen b - 1)"
        using bpos powi_pos [of "bitlen b - 1"] by simp
    qed
    also have "\<dots> = 2 powi (?e0 + 1)"
      by (simp add: power_int_diff [symmetric] algebra_simps)
    finally show ?thesis by (simp add: x)
  qed
  have lo: "2 powi (?e0 - 1) < \<bar>x\<bar>"
  proof -
    have "(2::rat) powi (?e0 - 1) = 2 powi (bitlen a - 1) / 2 powi (bitlen b)"
      by (simp add: power_int_diff [symmetric] algebra_simps)
    also have "\<dots> \<le> of_int a / 2 powi (bitlen b)"
      using A(1) by (simp add: divide_right_mono)
    also have "\<dots> < of_int a / of_int b"
    proof (rule divide_strict_left_mono)
      show "(of_int b :: rat) < 2 powi bitlen b" by (rule B(2))
      show "(0::rat) < of_int a" using a by simp
      show "(0::rat) < 2 powi bitlen b * of_int b" using bpos powi_pos [of "bitlen b"] by simp
    qed
    finally show ?thesis by (simp add: x)
  qed
  have e: "expo x = (if 2 powi ?e0 \<le> \<bar>x\<bar> then ?e0 else ?e0 - 1)"
    by (simp add: expo_def q)
  show "2 powi (expo x) \<le> \<bar>x\<bar>" using lo by (simp add: e)
  show "\<bar>x\<bar> < 2 powi (expo x + 1)" using up by (auto simp: e)
qed

lemma expo_eqI:
  assumes "2 powi e \<le> \<bar>x\<bar>" "\<bar>x\<bar> < 2 powi (e + 1)"
  shows "expo x = e"
proof -
  have "(0::rat) < 2 powi e" by (rule powi_pos)
  with assms(1) have "0 < \<bar>x\<bar>" by linarith
  then have "x \<noteq> 0" by simp
  from expo_bounds [OF this] assms show ?thesis by (rule expo_unique_aux)
qed



lemma rne_err: "\<bar>of_int (rne z) - z\<bar> \<le> 1 / 2"
proof -
  have "of_int \<lfloor>z\<rfloor> \<le> z" "z < of_int \<lfloor>z\<rfloor> + 1" by linarith+
  then show ?thesis by (auto simp: rne_def Let_def)
qed

lemma rne_eqI:
  assumes "\<bar>z - of_int k\<bar> < 1 / 2"
  shows "rne z = k"
proof -
  have e: "\<bar>of_int (rne z) - z\<bar> \<le> 1 / 2" by (rule rne_err)
  have "\<bar>(of_int (rne z) :: rat) - of_int k\<bar> < 1" using assms e by linarith
  then have "\<bar>(of_int (rne z - k) :: rat)\<bar> < 1" by simp
  then have "\<bar>rne z - k\<bar> < 1" by (metis of_int_abs of_int_less_1_iff)
  then show ?thesis by linarith
qed


lemma fl_eqI:
  assumes "2 powi e \<le> \<bar>x\<bar>" and "\<bar>x\<bar> < 2 powi (e + 1)" and "- 1022 \<le> e"
    and "\<bar>x / 2 powi (e - 52) - of_int k\<bar> < 1 / 2"
  shows "fl x = of_int k * 2 powi (e - 52)"
proof -
  have ex: "expo x = e" using assms(1,2) by (rule expo_eqI)
  have "0 < \<bar>x\<bar>" using assms(1) powi_pos [of e] by linarith
  then have nz: "x \<noteq> 0" by simp
  have m: "max e (- 1022) = e" using assms(3) by simp
  have "rne (x / 2 powi (e - 52)) = k" using assms(4) by (rule rne_eqI)
  then show ?thesis by (simp add: fl_def nz ex m)
qed







lemma fl_err_q:
  assumes "x \<noteq> 0"
  shows "\<bar>fl x - x\<bar> \<le> 2 powi (max (expo x) (- 1022) - 52) / 2"
proof -
  define q :: rat where "q = 2 powi (max (expo x) (- 1022) - 52)"
  have qp: "0 < q" unfolding q_def by (rule powi_pos)
  have f: "fl x = of_int (rne (x / q)) * q" using assms by (simp add: fl_def Let_def q_def)
  have "fl x - x = (of_int (rne (x / q)) - x / q) * q"
    unfolding f using qp by (simp add: algebra_simps)
  then have "\<bar>fl x - x\<bar> = \<bar>of_int (rne (x / q)) - x / q\<bar> * q"
    using qp by (simp add: abs_mult)
  also have "\<dots> \<le> 1 / 2 * q"
    by (rule mult_right_mono [OF rne_err]) (use qp in linarith)
  finally show ?thesis by (simp add: q_def)
qed



lemma q_normal:
  assumes "x \<noteq> 0"
  shows "2 powi (expo x - 52) / 2 \<le> \<bar>x\<bar> / 2 ^ 53"
proof -
  have "(2::rat) powi (expo x - 52) = 2 powi (expo x) / 2 powi 52" by (rule power_int_diff) simp
  also have "\<dots> = 2 powi (expo x) / 2 ^ 52" by (simp add: powi_numeral)
  also have "\<dots> \<le> \<bar>x\<bar> / 2 ^ 52" by (rule divide_right_mono [OF expo_bounds(1) [OF assms]]) simp
  finally show ?thesis by simp
qed

lemma q_sub: "(2::rat) powi (- 1074) / 2 = 2 powi (- 1075)"
proof -
  have "(2::rat) powi (- 1075 + 1) = 2 powi (- 1075) * 2" by (rule power_int_add_1) simp
  then show ?thesis by simp
qed

lemma fl_err: "\<bar>fl x - x\<bar> \<le> \<bar>x\<bar> / 2 ^ 53 + 1 / 2 ^ 100"
proof (cases "x = 0")
  case True
  then show ?thesis by (simp add: fl_def)
next
  case False
  note h = fl_err_q [OF False]
  have p: "(0::rat) \<le> 1 / 2 ^ 100" by simp
  have a: "(0::rat) \<le> \<bar>x\<bar> / 2 ^ 53" by simp
  show ?thesis
  proof (cases "- 1022 \<le> expo x")
    case True
    then have "max (expo x) (- 1022) = expo x" by simp
    with h have "\<bar>fl x - x\<bar> \<le> 2 powi (expo x - 52) / 2" by simp
    with q_normal [OF \<open>x \<noteq> 0\<close>] p show ?thesis by linarith
  next
    case False
    then have m: "max (expo x) (- 1022) - 52 = - 1074" by simp
    have "(2::rat) powi (- 1075) \<le> 2 powi (- 100)" by (rule powi_mono) simp
    also have "\<dots> = 1 / 2 ^ 100" by (simp add: powi_numeral)
    finally have "(2::rat) powi (- 1074) / 2 \<le> 1 / 2 ^ 100" by (simp only: q_sub)
    with h a show ?thesis unfolding m by linarith
  qed
qed

section \<open>The bandwidth of a ladder entry\<close>

lemma bandwidth_kilo:
  assumes "videoBitrate v = showNat n @ ''k''" and "audioBitrate v = showNat m @ ''k''"
  shows "bandwidth v = Some (int n * 1000 + int m * 1000)"
    and "numToString (bandwidth v) = showNat (n * 1000 + m * 1000)"
proof -
  show b: "bandwidth v = Some (int n * 1000 + int m * 1000)"
    by (simp add: bandwidth_def assms parseInt_kilo numAdd_def)
  have "nat (int n * 1000 + int m * 1000) = n * 1000 + m * 1000"
    by (simp add: nat_add_distrib nat_mult_distrib)
  with b show "numToString (bandwidth v) = showNat (n * 1000 + m * 1000)"
    by (simp add: numToString_def)
qed

section \<open>Eviction of old jobs\<close>








section \<open>The invariants hold\<close>

lemma running_not_allFulfilled: "running s i \<Longrightarrow> \<not> allFulfilled s"
proof
  assume r: "running s i" and a: "allFulfilled s"
  from r have l: "i < length (promises s)" and p: "promises s ! i = Pending"
    by (simp_all add: running_def)
  from l have "promises s ! i \<in> set (promises s)" by (rule nth_mem)
  with a have "promises s ! i = Fulfilled" by (simp add: allFulfilled_def)
  with p show False by simp
qed

lemma inv_start: "inv r fs (snd (convertToHLS_start r jobId now fs jobs))"
  by (simp add: inv_def convertToHLS_start_def newJob_def allFulfilled_def)

lemma inv_onProgress: "inv r fs s \<Longrightarrow> running s i \<Longrightarrow> inv r fs (onProgress r i p s)"
  by (frule running_not_allFulfilled)
     (auto simp: inv_def onProgress_def allFulfilled_def split: phase.splits)

lemma set_update_cases: "x \<in> set (xs[i := v]) \<Longrightarrow> x = v \<or> x \<in> set xs"
  using set_update_subset_insert by fastforce

lemma inv_onEnd: 
  assumes "inv r fs s" and "running s i" shows "inv r fs (onEnd r i s)"
proof -
  from assms(2) have p: "promises s ! i = Pending" "i < length (promises s)" 
    by (simp_all add: running_def)
  have naf: "\<not> allFulfilled s" using assms(2) by (rule running_not_allFulfilled)
  have keep: "\<And>j e. j < length (promises s) \<Longrightarrow> promises s ! j = Rejected e \<Longrightarrow>
                 (promises s)[i := Fulfilled] ! j = Rejected e"
    using p by (metis nth_list_update_neq promise.distinct(3))
  show ?thesis
  proof (cases "phase s")
    case AwaitVariants
    with assms(1) p show ?thesis
      by (auto simp: inv_def onEnd_def resolveVariant_def Let_def allFulfilled_def
          dest: set_update_cases)
  next
    case (RejectedWith e)
    with assms(1) p naf keep show ?thesis
      by (auto simp: inv_def onEnd_def resolveVariant_def Let_def)
  qed (use assms(1) naf in \<open>auto simp: inv_def\<close>)
qed

lemma inv_onError:
  assumes "inv r fs s" and "running s i" shows "inv r fs (onError now i e s)"
proof -
  from assms(2) have p: "promises s ! i = Pending" "i < length (promises s)" 
    by (simp_all add: running_def)
  have naf: "\<not> allFulfilled s" using assms(2) by (rule running_not_allFulfilled)
  have keep: "\<And>j e'. j < length (promises s) \<Longrightarrow> promises s ! j = Rejected e' \<Longrightarrow>
                 (promises s)[i := Rejected e] ! j = Rejected e'"
    using p by (metis nth_list_update_neq promise.distinct(3))
  show ?thesis
  proof (cases "phase s")
    case AwaitVariants
    with assms(1) p show ?thesis
      by (auto simp: inv_def onError_def rejectVariant_def Let_def catchBranch_def)
  next
    case (RejectedWith e)
    with assms(1) p naf keep show ?thesis
      by (auto simp: inv_def onError_def rejectVariant_def Let_def)
  qed (use assms(1) naf in \<open>auto simp: inv_def\<close>)
qed

lemma inv_step: "inv r fs s \<Longrightarrow> inv r fs (step r now ev s)"
proof (cases ev)
  case (Progress i p)
  assume "inv r fs s" with Progress show ?thesis by (simp add: inv_onProgress)
next
  case (End i)
  assume "inv r fs s" with End show ?thesis by (simp add: inv_onEnd)
next
  case (Err i e)
  assume "inv r fs s" with Err show ?thesis by (simp add: inv_onError)
next
  case MasterWritten
  assume "inv r fs s" with MasterWritten show ?thesis
    by (auto simp: inv_def afterMasterPlaylist_def generateMasterPlaylist_def written_def
        allFulfilled_def)
next
  case (MasterWriteFailed e)
  assume "inv r fs s" with MasterWriteFailed show ?thesis
    by (auto simp: inv_def catchBranch_def allFulfilled_def)
next
  case ThumbnailEnd
  assume "inv r fs s" with ThumbnailEnd show ?thesis
    by (auto simp: inv_def afterThumbnail_def allFulfilled_def Let_def)
next
  case (ThumbnailError e)
  assume "inv r fs s" with ThumbnailError show ?thesis
    by (auto simp: inv_def afterThumbnail_def allFulfilled_def Let_def)
qed

lemma inv_run: "inv r fs s \<Longrightarrow> inv r fs (run r s evs)"
  by (induction evs arbitrary: s) (auto simp: inv_step)

lemma inv_convertToHLS: "inv r fs (convertToHLS r jobId now fs evs)"
  unfolding convertToHLS_def by (rule inv_run [OF inv_start])

lemma allFulfilled_nth: "allFulfilled s \<Longrightarrow> i < length (promises s) \<Longrightarrow> promises s ! i = Fulfilled"
  by (simp add: allFulfilled_def)

lemma pathsInv_start: "pathsInv r (snd (convertToHLS_start r jobId now fs jobs))"
  by (auto simp: pathsInv_def convertToHLS_start_def)

lemma fulfilled_update:
  "i < length ps \<Longrightarrow> length ps = N \<Longrightarrow>
     {j. j < N \<and> ps[i := Fulfilled] ! j = Fulfilled} = insert i {j. j < N \<and> ps ! j = Fulfilled}"
  by (auto simp: nth_list_update)

lemma fulfilled_update_other:
  assumes "ps ! i = Pending"
  shows "{j. j < N \<and> ps[i := Rejected e] ! j = Fulfilled} = {j. j < N \<and> ps ! j = Fulfilled}"
proof -
  have "\<And>j. (ps[i := Rejected e] ! j = Fulfilled) = (ps ! j = Fulfilled)"
  proof -
    fix j show "(ps[i := Rejected e] ! j = Fulfilled) = (ps ! j = Fulfilled)"
      using assms by (cases "j = i"; cases "i < length ps") (auto simp: list_update_beyond)
  qed
  then show ?thesis by simp
qed

lemma path_distinct:
  "playlistPath r i \<noteq> thumbnailPath r" "masterPlaylistPath r \<noteq> thumbnailPath r"
proof -
  have "last (playlistPath r i) = CHR ''8''" "last (masterPlaylistPath r) = CHR ''8''"
    "last (thumbnailPath r) = CHR ''g''"
    by (simp_all add: playlistPath_def masterPlaylistPath_def thumbnailPath_def path_join_def)
  then show "playlistPath r i \<noteq> thumbnailPath r" "masterPlaylistPath r \<noteq> thumbnailPath r"
    by auto
qed

lemma thumbnail_not_artifact: "thumbnailPath r \<notin> artifacts r"
  using path_distinct [THEN not_sym] by (auto simp: artifacts_def)

lemma pathsInv_onEnd:
  assumes "inv r fs s" and "pathsInv r s" and "running s i"
  shows "pathsInv r (onEnd r i s)"
proof -
  from assms(3) have p: "promises s ! i = Pending" "i < length (promises s)"
    by (simp_all add: running_def)
  from assms(1) have len: "length (promises s) = length (ladder r)" by (simp add: inv_def)
  have naf: "\<not> allFulfilled s" using assms(3) by (rule running_not_allFulfilled)
  note fu = fulfilled_update [OF p(2) len]
  show ?thesis
  proof (cases "phase s")
    case AwaitVariants
    with assms(2) p fu show ?thesis
      by (auto simp: pathsInv_def onEnd_def resolveVariant_def Let_def)
  next
    case (RejectedWith e)
    with assms(2) p fu show ?thesis
      by (auto simp: pathsInv_def onEnd_def resolveVariant_def Let_def)
  qed (use assms(1) naf in \<open>auto simp: inv_def\<close>)
qed


lemma pathsInv_onError:
  assumes "inv r fs s" and "pathsInv r s" and "running s i"
  shows "pathsInv r (onError now i e s)"
proof -
  from assms(3) have p: "promises s ! i = Pending" "i < length (promises s)"
    by (simp_all add: running_def)
  have naf: "\<not> allFulfilled s" using assms(3) by (rule running_not_allFulfilled)
  note fu = fulfilled_update_other [OF p(1)]
  show ?thesis
  proof (cases "phase s")
    case AwaitVariants
    with assms(2) p fu show ?thesis
      by (auto simp: pathsInv_def onError_def rejectVariant_def Let_def catchBranch_def)
  next
    case (RejectedWith e)
    with assms(2) p fu show ?thesis
      by (auto simp: pathsInv_def onError_def rejectVariant_def Let_def)
  qed (use assms(1) naf in \<open>auto simp: inv_def\<close>)
qed

lemma fulfilled_all:
  assumes "allFulfilled s" and "length (promises s) = N"
  shows "{i. i < N \<and> promises s ! i = Fulfilled} = {..<N}"
  using assms allFulfilled_nth by auto

lemma pathsInv_step:
  assumes "inv r fs s" and "pathsInv r s"
  shows "pathsInv r (step r now ev s)"
proof (cases ev)
  case (Progress i p)
  with assms(2) show ?thesis by (auto simp: pathsInv_def onProgress_def split: phase.splits)
next
  case (End i)
  with assms show ?thesis by (simp add: pathsInv_onEnd)
next
  case (Err i e)
  with assms show ?thesis by (simp add: pathsInv_onError)
next
  case MasterWritten
  show ?thesis
  proof (cases "phase s = AwaitMasterWrite")
    case True
    with assms(1) have "allFulfilled s" "length (promises s) = length (ladder r)"
      by (simp_all add: inv_def)
    then have "{i. i < length (ladder r) \<and> promises s ! i = Fulfilled} = {..<length (ladder r)}"
      by (rule fulfilled_all)
    with True assms(2) MasterWritten show ?thesis
      by (simp add: pathsInv_def afterMasterPlaylist_def generateMasterPlaylist_def artifacts_def)
  next
    case False
    with assms(2) MasterWritten show ?thesis by simp
  qed
next
  case (MasterWriteFailed e)
  with assms(2) show ?thesis by (auto simp: pathsInv_def catchBranch_def)
next
  case ThumbnailEnd
  with assms(2) show ?thesis by (auto simp: pathsInv_def afterThumbnail_def Let_def)
next
  case (ThumbnailError e)
  with assms(2) show ?thesis by (auto simp: pathsInv_def afterThumbnail_def Let_def)
qed

lemma invs_run: "inv r fs s \<Longrightarrow> pathsInv r s \<Longrightarrow> inv r fs (run r s evs) \<and> pathsInv r (run r s evs)"
  by (induction evs arbitrary: s) (auto simp: inv_step pathsInv_step)

lemma pathsInv_convertToHLS: "pathsInv r (convertToHLS r jobId now fs evs)"
  unfolding convertToHLS_def using invs_run [OF inv_start pathsInv_start] by blast

lemma run_append: "run r s (xs @ ys) = run r (run r s xs) ys"
  by (induction xs arbitrary: s) auto

section \<open>The master playlist of a completed job\<close>

lemmas pipeline_defs =
  convertToHLS_def convertToHLS_start_def newJob_def running_def onProgress_def onEnd_def
  onError_def resolveVariant_def rejectVariant_def catchBranch_def afterMasterPlaylist_def
  generateMasterPlaylist_def afterThumbnail_def Let_def

lemma pushVariants_append:
  "pushVariants acc vs = acc @ concat (map (\<lambda>v. [streamInfLine v, playlistLine v, '''']) vs)"
  by (induction vs arbitrary: acc) auto

lemma blocks_shift:
  "x # concat (map (\<lambda>v. [a v, b v, x]) vs) = concat (map (\<lambda>v. [x, a v, b v]) vs) @ [x]"
  by (induction vs) auto

lemma masterPlaylistText_template: "masterPlaylistText l = spec_master l"
proof -
  have "masterContent l =
          [''#EXTM3U'', ''#EXT-X-VERSION:3''] @
          ('''' # concat (map (\<lambda>v. [streamInfLine v, playlistLine v, '''']) l))"
    by (simp add: masterContent_def pushVariants_append)
  also have "\<dots> = [''#EXTM3U'', ''#EXT-X-VERSION:3''] @
          concat (map (\<lambda>v. ['''', streamInfLine v, playlistLine v]) l) @ ['''']"
    by (simp only: blocks_shift)
  also have "(\<lambda>v. ['''', streamInfLine v, playlistLine v]) = spec_block"
    by (rule ext) (simp add: spec_block_def streamInfLine_def playlistLine_def)
  finally show ?thesis by (simp add: masterPlaylistText_def spec_master_def)
qed

lemma completed_phase:
  assumes "inv r fs s" and "status (job s) = completed"
  shows "phase s = Resolved (outputPaths (job s))"
  using assms by (cases "phase s") (auto simp: inv_def)

lemma scenario_completed:
  "status (job (convertToHLS scenarioRequest ''job-1'' 0 Map.empty scenarioEvents)) = completed"
  by (simp add: scenarioEvents_def scenarioRequest_def scenarioLadder_def pipeline_defs)

lemmas eval_defs =
  bandwidth_def parseInt_def isWhiteSpace_def isDigitOf_def digitVal_def digitsValue_def numAdd_def
  numToString_def showNat_small showNat_big digitChar_def

text \<open>The \<open>BANDWIDTH\<close> values printed for the configured ladder.\<close>

lemma BITRATE_LADDER_bandwidths:
  "map (numToString \<circ> bandwidth) BITRATE_LADDER =
     [''464000'', ''896000'', ''1328000'', ''2628000'', ''5192000'']"
  by (simp add: BITRATE_LADDER_def eval_defs)

lemma scenario_text:
  "spec_master scenarioLadder =
   ''#EXTM3U\<newline>#EXT-X-VERSION:3\<newline>\<newline>#EXT-X-STREAM-INF:BANDWIDTH=464000,RESOLUTION=426x240,CODECS=\"avc1.42e00a,mp4a.40.2\"\<newline>240p/playlist.m3u8\<newline>\<newline>#EXT-X-STREAM-INF:BANDWIDTH=896000,RESOLUTION=640x360,CODECS=\"avc1.42e00a,mp4a.40.2\"\<newline>360p/playlist.m3u8\<newline>''"
  by (simp add: spec_master_def spec_block_def scenarioLadder_def eval_defs)


text \<open>
  C1. Whenever a job is completed, the file at the master playlist path holds the two header
  lines, then for each ladder entry, in ladder order, a blank line, its
  \<open>#EXT-X-STREAM-INF\<close> line and its playlist line, and a last empty line, all joined
  by line feeds. For the two-entry ladder of the scenario these are the bytes of the witness.
\<close>

theorem master_playlist_of_completed_job:
  assumes "status (job (convertToHLS r jobId now fs evs)) = completed"
  shows "files (convertToHLS r jobId now fs evs) (masterPlaylistPath r) = Some (spec_master (ladder r))"
proof -
  let ?s = "convertToHLS r jobId now fs evs"
  have i: "inv r fs ?s" by (rule inv_convertToHLS)
  then have "phase ?s = Resolved (outputPaths (job ?s))" using assms by (rule completed_phase)
  with i have "files ?s = written r fs" by (simp add: inv_def)
  then show ?thesis by (simp add: written_def masterPlaylistText_template)
qed

theorem master_playlist_of_completed_job_witness:
  "status (job (convertToHLS scenarioRequest ''job-1'' 0 Map.empty scenarioEvents)) = completed \<and>
   files (convertToHLS scenarioRequest ''job-1'' 0 Map.empty scenarioEvents) ''hls/v1/master.m3u8'' =
     Some ''#EXTM3U\<newline>#EXT-X-VERSION:3\<newline>\<newline>#EXT-X-STREAM-INF:BANDWIDTH=464000,RESOLUTION=426x240,CODECS=\"avc1.42e00a,mp4a.40.2\"\<newline>240p/playlist.m3u8\<newline>\<newline>#EXT-X-STREAM-INF:BANDWIDTH=896000,RESOLUTION=640x360,CODECS=\"avc1.42e00a,mp4a.40.2\"\<newline>360p/playlist.m3u8\<newline>''"
proof -
  have p: "masterPlaylistPath scenarioRequest = ''hls/v1/master.m3u8''"
    by (simp add: masterPlaylistPath_def scenarioRequest_def path_join_def)
  have l: "ladder scenarioRequest = scenarioLadder" by (simp add: scenarioRequest_def)
  show ?thesis
    using master_playlist_of_completed_job [OF scenario_completed] scenario_completed
    unfolding p l scenario_text by simp
qed

section \<open>The bandwidth emitted for a ladder entry\<close>

lemma concat_triples_nth:
  "i < length l \<Longrightarrow> concat (map (\<lambda>v. [a v, b v, c v]) l) ! (3 * i) = a (l ! i)"
proof (induction l arbitrary: i)
  case Nil
  then show ?case by simp
next
  case (Cons v l)
  show ?case
  proof (cases i)
    case 0
    then show ?thesis by simp
  next
    case (Suc j)
    with Cons.prems have "j < length l" by simp
    then have "concat (map (\<lambda>v. [a v, b v, c v]) l) ! (3 * j) = a (l ! j)" by (rule Cons.IH)
    moreover have "3 * i = Suc (Suc (Suc (3 * j)))" using Suc by simp
    ultimately show ?thesis using Suc by simp
  qed
qed

lemma masterContent_stream_line:
  assumes "i < length l"
  shows "masterContent l ! (3 * i + 3) = streamInfLine (l ! i)"
proof -
  have "masterContent l ! (3 * i + 3) =
          concat (map (\<lambda>v. [streamInfLine v, playlistLine v, '''']) l) ! (3 * i)"
    by (simp add: masterContent_def pushVariants_append nth_append)
  with assms show ?thesis by (simp add: concat_triples_nth)
qed

lemma spec_master_split:
  assumes "i < length l"
  shows "spec_master l =
           join ''\<newline>'' ([''#EXTM3U'', ''#EXT-X-VERSION:3''] @ concat (map spec_block (take i l))
              @ spec_block (l ! i) @ concat (map spec_block (drop (Suc i) l)) @ [''''])"
proof -
  from assms have "l = take i l @ (l ! i) # drop (Suc i) l" by (rule id_take_nth_drop)
  then have "map spec_block l = map spec_block (take i l) @ spec_block (l ! i) # map spec_block (drop (Suc i) l)"
    by (metis list.simps(9) map_append)
  then show ?thesis by (simp add: spec_master_def)
qed

text \<open>
  C2. For the ladder entry at index \<open>i\<close> whose video bitrate is written \<open><n>k\<close> and whose
  audio bitrate is written \<open><m>k\<close>, the loop of \<open>generateMasterPlaylist\<close> pushes, as line
  \<open>3 * i + 3\<close>, the \<open>#EXT-X-STREAM-INF\<close> line with \<open>BANDWIDTH=\<close> followed by the decimal
  digits of \<open>n * 1000 + m * 1000\<close>; the text written is the header, the blocks of the
  entries before, this line with its playlist line, and the blocks of the entries after; and
  that text is the file of every completed job. The sum is taken within the range where a
  double holds every integer exactly.
\<close>

theorem bandwidth_exact_sum:
  assumes "i < length (ladder r)"
    and "videoBitrate (ladder r ! i) = showNat n @ ''k''"
    and "audioBitrate (ladder r ! i) = showNat m @ ''k''"
    and "int n * 1000 + int m * 1000 \<le> MAX_SAFE"
  shows "bandwidth (ladder r ! i) = Some (int n * 1000 + int m * 1000)
       \<and> masterContent (ladder r) ! (3 * i + 3) =
           ''#EXT-X-STREAM-INF:BANDWIDTH='' @ showNat (n * 1000 + m * 1000) @ '',RESOLUTION=''
             @ resolution (ladder r ! i) @ '',CODECS=\"avc1.42e00a,mp4a.40.2\"''
       \<and> masterPlaylistText (ladder r) =
           join ''\<newline>''
             ([''#EXTM3U'', ''#EXT-X-VERSION:3''] @ concat (map spec_block (take i (ladder r)))
              @ ['''',
                 ''#EXT-X-STREAM-INF:BANDWIDTH='' @ showNat (n * 1000 + m * 1000) @ '',RESOLUTION=''
                   @ resolution (ladder r ! i) @ '',CODECS=\"avc1.42e00a,mp4a.40.2\"'',
                 name (ladder r ! i) @ ''/playlist.m3u8'']
              @ concat (map spec_block (drop (Suc i) (ladder r))) @ [''''])
       \<and> (status (job (convertToHLS r jobId now fs evs)) = completed \<longrightarrow>
            files (convertToHLS r jobId now fs evs) (masterPlaylistPath r)
              = Some (masterPlaylistText (ladder r)))"
proof -
  note bw = bandwidth_kilo [OF assms(2,3)]
  have line: "streamInfLine (ladder r ! i) =
           ''#EXT-X-STREAM-INF:BANDWIDTH='' @ showNat (n * 1000 + m * 1000) @ '',RESOLUTION=''
             @ resolution (ladder r ! i) @ '',CODECS=\"avc1.42e00a,mp4a.40.2\"''"
    by (simp add: streamInfLine_def bw(2))
  have a: "masterContent (ladder r) ! (3 * i + 3) =
           ''#EXT-X-STREAM-INF:BANDWIDTH='' @ showNat (n * 1000 + m * 1000) @ '',RESOLUTION=''
             @ resolution (ladder r ! i) @ '',CODECS=\"avc1.42e00a,mp4a.40.2\"''"
    using masterContent_stream_line [OF assms(1)] line by simp
  have blk: "spec_block (ladder r ! i) =
              ['''',
               ''#EXT-X-STREAM-INF:BANDWIDTH='' @ showNat (n * 1000 + m * 1000) @ '',RESOLUTION=''
                 @ resolution (ladder r ! i) @ '',CODECS=\"avc1.42e00a,mp4a.40.2\"'',
               name (ladder r ! i) @ ''/playlist.m3u8'']"
    by (simp add: spec_block_def bw(2))
  have b: "masterPlaylistText (ladder r) =
           join ''\<newline>''
             ([''#EXTM3U'', ''#EXT-X-VERSION:3''] @ concat (map spec_block (take i (ladder r)))
              @ ['''',
                 ''#EXT-X-STREAM-INF:BANDWIDTH='' @ showNat (n * 1000 + m * 1000) @ '',RESOLUTION=''
                   @ resolution (ladder r ! i) @ '',CODECS=\"avc1.42e00a,mp4a.40.2\"'',
                 name (ladder r ! i) @ ''/playlist.m3u8'']
              @ concat (map spec_block (drop (Suc i) (ladder r))) @ [''''])"
    unfolding masterPlaylistText_template spec_master_split [OF assms(1)] blk ..
  have c: "status (job (convertToHLS r jobId now fs evs)) = completed \<longrightarrow>
            files (convertToHLS r jobId now fs evs) (masterPlaylistPath r)
              = Some (masterPlaylistText (ladder r))"
  proof
    let ?s = "convertToHLS r jobId now fs evs"
    assume "status (job ?s) = completed"
    with inv_convertToHLS [of r fs jobId now evs]
    have "phase ?s = Resolved (outputPaths (job ?s))" by (rule completed_phase)
    with inv_convertToHLS [of r fs jobId now evs] have "files ?s = written r fs"
      by (simp add: inv_def)
    then show "files ?s (masterPlaylistPath r) = Some (masterPlaylistText (ladder r))"
      by (simp add: written_def)
  qed
  from bw(1) a b c show ?thesis by blast
qed

theorem bandwidth_exact_sum_witness:
  "(0::nat) < length (ladder scenarioRequest) \<and>
   videoBitrate (ladder scenarioRequest ! 0) = showNat 400 @ ''k'' \<and>
   audioBitrate (ladder scenarioRequest ! 0) = showNat 64 @ ''k'' \<and>
   int 400 * 1000 + int 64 * 1000 \<le> MAX_SAFE \<and>
   status (job (convertToHLS scenarioRequest ''job-1'' 0 Map.empty scenarioEvents)) = completed \<and>
   bandwidth (ladder scenarioRequest ! 0) = Some 464000 \<and>
   masterContent (ladder scenarioRequest) ! 3 =
     ''#EXT-X-STREAM-INF:BANDWIDTH=464000,RESOLUTION=426x240,CODECS=\"avc1.42e00a,mp4a.40.2\"'' \<and>
   files (convertToHLS scenarioRequest ''job-1'' 0 Map.empty scenarioEvents)
     (masterPlaylistPath scenarioRequest) = Some (masterPlaylistText (ladder scenarioRequest))"
proof -
  have l: "(0::nat) < length (ladder scenarioRequest)"
    by (simp add: scenarioRequest_def scenarioLadder_def)
  have v: "videoBitrate (ladder scenarioRequest ! 0) = showNat 400 @ ''k''"
    by (simp add: scenarioRequest_def scenarioLadder_def showNat_small showNat_big digitChar_def)
  have a: "audioBitrate (ladder scenarioRequest ! 0) = showNat 64 @ ''k''"
    by (simp add: scenarioRequest_def scenarioLadder_def showNat_small showNat_big digitChar_def)
  have m: "int 400 * 1000 + int 64 * 1000 \<le> MAX_SAFE"
    by (simp add: MAX_SAFE_def)
  have s: "showNat 464000 = ''464000''"
    by (simp add: showNat_small showNat_big digitChar_def)
  have r: "resolution (ladder scenarioRequest ! 0) = ''426x240''"
    by (simp add: scenarioRequest_def scenarioLadder_def)
  from bandwidth_exact_sum [OF l v a m, of "''job-1''" 0 Map.empty scenarioEvents] scenario_completed
  have "bandwidth (ladder scenarioRequest ! 0) = Some 464000"
    "masterContent (ladder scenarioRequest) ! 3 =
       ''#EXT-X-STREAM-INF:BANDWIDTH=464000,RESOLUTION=426x240,CODECS=\"avc1.42e00a,mp4a.40.2\"''"
    "files (convertToHLS scenarioRequest ''job-1'' 0 Map.empty scenarioEvents)
       (masterPlaylistPath scenarioRequest) = Some (masterPlaylistText (ladder scenarioRequest))"
    by (simp_all add: s r)
  with l v a m scenario_completed show ?thesis by blast
qed

section \<open>A failing rendition\<close>


lemma length_promises_step: "length (promises (step r t ev s)) = length (promises s)"
  by (cases ev)
     (auto simp: onProgress_def onEnd_def onError_def resolveVariant_def rejectVariant_def
        catchBranch_def afterMasterPlaylist_def generateMasterPlaylist_def afterThumbnail_def Let_def)

lemma rejected_step:
  assumes "promises s ! i = Rejected e"
  shows "promises (step r t ev s) ! i = Rejected e"
proof -
  have "\<And>j v. promises s ! j = Pending \<Longrightarrow> (promises s)[j := v] ! i = Rejected e"
    using assms by (metis nth_list_update_neq promise.distinct(3))
  with assms show ?thesis
    by (cases ev)
       (auto simp: onProgress_def onEnd_def onError_def resolveVariant_def rejectVariant_def
          running_def catchBranch_def afterMasterPlaylist_def generateMasterPlaylist_def
          afterThumbnail_def Let_def)
qed

lemma rejected_run: "promises s ! i = Rejected e \<Longrightarrow> promises (run r s evs) ! i = Rejected e"
  by (induction evs arbitrary: s) (auto simp: rejected_step)

lemma length_promises_run: "length (promises (run r s evs)) = length (promises s)"
  by (induction evs arbitrary: s) (auto simp: length_promises_step)

lemma err_step_rejects: "running s i \<Longrightarrow> promises (step r t (Err i e) s) ! i = Rejected e"
  by (auto simp: running_def onError_def rejectVariant_def catchBranch_def Let_def)

lemma err_step_phase:
  "running s i \<Longrightarrow> phase s = AwaitVariants \<Longrightarrow> phase (step r t (Err i e) s) = RejectedWith e"
  by (auto simp: running_def onError_def rejectVariant_def catchBranch_def Let_def)

lemma rejected_phase_step: "phase s = RejectedWith e \<Longrightarrow> phase (step r t ev s) = RejectedWith e"
  by (cases ev)
     (auto simp: onProgress_def onEnd_def onError_def resolveVariant_def rejectVariant_def Let_def)

lemma rejected_phase_run: "phase s = RejectedWith e \<Longrightarrow> phase (run r s evs) = RejectedWith e"
  by (induction evs arbitrary: s) (auto simp: rejected_phase_step)

lemma rejected_inv:
  assumes "inv r fs s" and "i < length (promises s)" and "promises s ! i = Rejected e"
  shows "status (job s) = failed \<and> files s = fs \<and>
         (\<exists>j e'. j < length (ladder r) \<and> promises s ! j = Rejected e' \<and>
                 error (job s) = Some (errorMessage e'))"
proof -
  from assms(2) have m: "promises s ! i \<in> set (promises s)" by (rule nth_mem)
  have naf: "\<not> allFulfilled s"
  proof
    assume "allFulfilled s"
    with m have "promises s ! i = Fulfilled" by (simp add: allFulfilled_def)
    with assms(3) show False by simp
  qed
  show ?thesis
  proof (cases "phase s")
    case AwaitVariants
    with assms(1) m have "promises s ! i = Pending \<or> promises s ! i = Fulfilled"
      by (simp add: inv_def)
    with assms(3) show ?thesis by simp
  next
    case (RejectedWith e0)
    with assms(1) naf show ?thesis by (auto simp: inv_def)
  qed (use assms(1) naf in \<open>auto simp: inv_def\<close>)
qed

text \<open>
  C4. If the encoder of a rendition that is still running fails, then whatever happens
  before and after, the job ends \<open>failed\<close>, the message of a failed rendition is recorded
  on the job (the message of this one when it is the first to fail), and the files are what
  they were when the conversion started: no master playlist is written.
\<close>

theorem rendition_failure_fails_job:
  assumes "running (convertToHLS r jobId t0 fs evs) i"
  shows "status (job (convertToHLS r jobId t0 fs (evs @ (t, Err i e) # evs'))) = failed
       \<and> (\<exists>j e'. j < length (ladder r)
             \<and> promises (convertToHLS r jobId t0 fs (evs @ (t, Err i e) # evs')) ! j = Rejected e'
             \<and> error (job (convertToHLS r jobId t0 fs (evs @ (t, Err i e) # evs')))
                 = Some (errorMessage e'))
       \<and> (phase (convertToHLS r jobId t0 fs evs) = AwaitVariants \<longrightarrow>
            error (job (convertToHLS r jobId t0 fs (evs @ (t, Err i e) # evs')))
              = Some (errorMessage e))
       \<and> files (convertToHLS r jobId t0 fs (evs @ (t, Err i e) # evs')) = fs"
proof -
  let ?s = "convertToHLS r jobId t0 fs evs"
  let ?s' = "convertToHLS r jobId t0 fs (evs @ (t, Err i e) # evs')"
  have s': "?s' = run r (step r t (Err i e) ?s) evs'"
    by (simp add: convertToHLS_def run_append)
  have i': "inv r fs ?s'" by (rule inv_convertToHLS)
  have "promises (step r t (Err i e) ?s) ! i = Rejected e"
    using assms by (rule err_step_rejects)
  then have rj: "promises ?s' ! i = Rejected e" unfolding s' by (rule rejected_run)
  have "i < length (promises ?s)" using assms by (simp add: running_def)
  then have "i < length (promises ?s')"
    unfolding s' by (simp only: length_promises_run length_promises_step)
  from rejected_inv [OF i' this rj]
  have main: "status (job ?s') = failed \<and> files ?s' = fs \<and>
         (\<exists>j e'. j < length (ladder r) \<and> promises ?s' ! j = Rejected e' \<and>
                 error (job ?s') = Some (errorMessage e'))" .
  have "phase ?s = AwaitVariants \<longrightarrow> error (job ?s') = Some (errorMessage e)"
  proof
    assume "phase ?s = AwaitVariants"
    with assms have "phase (step r t (Err i e) ?s) = RejectedWith e" by (rule err_step_phase)
    then have "phase ?s' = RejectedWith e" unfolding s' by (rule rejected_phase_run)
    with i' show "error (job ?s') = Some (errorMessage e)" by (simp add: inv_def)
  qed
  with main show ?thesis by blast
qed

theorem rendition_failure_fails_job_witness:
  "running (convertToHLS scenarioRequest ''job-1'' 0 Map.empty failureEvents) 1 \<and>
   phase (convertToHLS scenarioRequest ''job-1'' 0 Map.empty failureEvents) = AwaitVariants \<and>
   status (job (convertToHLS scenarioRequest ''job-1'' 0 Map.empty
      (failureEvents @ (3, Err 1 (Error ''Conversion failed!'')) # [(4, MasterWritten), (5, ThumbnailEnd)])))
     = failed \<and>
   error (job (convertToHLS scenarioRequest ''job-1'' 0 Map.empty
      (failureEvents @ (3, Err 1 (Error ''Conversion failed!'')) # [(4, MasterWritten), (5, ThumbnailEnd)])))
     = Some ''Conversion failed!'' \<and>
   files (convertToHLS scenarioRequest ''job-1'' 0 Map.empty
      (failureEvents @ (3, Err 1 (Error ''Conversion failed!'')) # [(4, MasterWritten), (5, ThumbnailEnd)]))
     ''hls/v1/master.m3u8'' = None"
proof -
  have r: "running (convertToHLS scenarioRequest ''job-1'' 0 Map.empty failureEvents) 1"
    by (simp add: pipeline_defs scenarioRequest_def scenarioLadder_def failureEvents_def)
  have p: "phase (convertToHLS scenarioRequest ''job-1'' 0 Map.empty failureEvents) = AwaitVariants"
    by (simp add: pipeline_defs scenarioRequest_def scenarioLadder_def failureEvents_def)
  show ?thesis
    using rendition_failure_fails_job [OF r, of 3 "Error ''Conversion failed!''"
        "[(4, MasterWritten), (5, ThumbnailEnd)]"] r p
    by simp
qed

section \<open>The progress value of some events\<close>

lemma Suc5: "Suc (Suc (Suc (Suc (Suc 0)))) = 5"
  by simp

lemma overallProgress_3_50: "overallProgress 3 (Some 50) 5 = 70"
proof -
  have a: "fl (1 / 2) = 1 / 2"
    using fl_eqI [of "- 1" "1 / 2" 4503599627370496] by (simp add: powi_numeral)
  have b: "fl (7 / 2) = 7 / 2"
    using fl_eqI [of 1 "7 / 2" 7881299347898368] by (simp add: powi_numeral)
  have c: "fl (7 / 10) = 3152519739159347 / 4503599627370496"
    using fl_eqI [of "- 1" "7 / 10" 6305039478318694] by (simp add: powi_numeral)
  have d: "fl (78812993478983675 / 1125899906842624) = 70"
    using fl_eqI [of 6 "78812993478983675 / 1125899906842624" 4925812092436480] by (simp add: powi_numeral)
  have r: "Math_round 70 = 70"
    unfolding Math_round_def by (rule floor_unique) simp_all
  show ?thesis by (simp add: overallProgress_def orZero_def a b c d r)
qed

lemma overallProgress_0_10: "overallProgress 0 (Some 10) 5 = 2"
proof -
  have a: "fl (1 / 10) = 3602879701896397 / 36028797018963968"
    using fl_eqI [of "- 4" "1 / 10" 7205759403792794] by (simp add: powi_numeral)
  have b: "fl (3602879701896397 / 36028797018963968) = 3602879701896397 / 36028797018963968"
    using fl_eqI [of "- 4" "3602879701896397 / 36028797018963968" 7205759403792794] by (simp add: powi_numeral)
  have c: "fl (3602879701896397 / 180143985094819840) = 5764607523034235 / 288230376151711744"
    using fl_eqI [of "- 6" "3602879701896397 / 180143985094819840" 5764607523034235] by (simp add: powi_numeral)
  have d: "fl (144115188075855875 / 72057594037927936) = 2"
    using fl_eqI [of 1 "144115188075855875 / 72057594037927936" 4503599627370496] by (simp add: powi_numeral)
  have r: "Math_round 2 = 2"
    unfolding Math_round_def by (rule floor_unique) simp_all
  show ?thesis by (simp add: overallProgress_def orZero_def a b c d r)
qed

lemma overallProgress_4_100: "overallProgress 4 (Some 100) 5 = 100"
proof -
  have a: "fl 1 = 1"
    using fl_eqI [of 0 "1" 4503599627370496] by (simp add: powi_numeral)
  have b: "fl 5 = 5"
    using fl_eqI [of 2 "5" 5629499534213120] by (simp add: powi_numeral)
  have d: "fl 100 = 100"
    using fl_eqI [of 6 "100" 7036874417766400] by (simp add: powi_numeral)
  have r: "Math_round 100 = 100"
    unfolding Math_round_def by (rule floor_unique) simp_all
  show ?thesis by (simp add: overallProgress_def orZero_def a b d r)
qed

lemma overallProgress_4_97: "overallProgress 4 (Some (195 / 2)) 5 = 99"
proof -
  have a: "fl (39 / 40) = 8782019273372467 / 9007199254740992"
    using fl_eqI [of "- 1" "39 / 40" 8782019273372467] by (simp add: powi_numeral)
  have b: "fl (44810816292336435 / 9007199254740992) = 2800676018271027 / 562949953421312"
    using fl_eqI [of 2 "44810816292336435 / 9007199254740992" 5601352036542054] by (simp add: powi_numeral)
  have c: "fl (2800676018271027 / 2814749767106560) = 4481081629233643 / 4503599627370496"
    using fl_eqI [of "- 1" "2800676018271027 / 2814749767106560" 8962163258467286] by (simp add: powi_numeral)
  have d: "fl (112027040730841075 / 1125899906842624) = 7001690045677567 / 70368744177664"
    using fl_eqI [of 6 "112027040730841075 / 1125899906842624" 7001690045677567] by (simp add: powi_numeral)
  have r: "Math_round (7001690045677567 / 70368744177664) = 99"
    unfolding Math_round_def by (rule floor_unique) simp_all
  show ?thesis by (simp add: overallProgress_def orZero_def a b c d r)
qed

lemma overallProgress_0_29: "overallProgress 0 (Some 29) 2 = 14"
proof -
  have a: "fl (29 / 100) = 5224175567749775 / 18014398509481984"
    using fl_eqI [of "- 2" "29 / 100" 5224175567749775] by (simp add: powi_numeral)
  have b: "fl (5224175567749775 / 18014398509481984) = 5224175567749775 / 18014398509481984"
    using fl_eqI [of "- 2" "5224175567749775 / 18014398509481984" 5224175567749775] by (simp add: powi_numeral)
  have c: "fl (5224175567749775 / 36028797018963968) = 5224175567749775 / 36028797018963968"
    using fl_eqI [of "- 3" "5224175567749775 / 36028797018963968" 5224175567749775] by (simp add: powi_numeral)
  have d: "fl (130604389193744375 / 9007199254740992) = 8162774324609023 / 562949953421312"
    using fl_eqI [of 3 "130604389193744375 / 9007199254740992" 8162774324609023] by (simp add: powi_numeral)
  have r: "Math_round (8162774324609023 / 562949953421312) = 14"
    unfolding Math_round_def by (rule floor_unique) simp_all
  show ?thesis by (simp add: overallProgress_def orZero_def a b c d r)
qed


section \<open>Job creation\<close>


text \<open>
  C5, as the code has it. \<open>convertToHLS\<close> creates the job with status \<open>processing\<close> and
  progress 0 and stores it in the registry at once: the first state a lookup can see is
  \<open>processing\<close> with progress 0. A job has no \<open>pending\<close> status; the scenario shows that
  the first visible status is not \<open>pending\<close>.
\<close>

theorem job_created_processing:
  "getProcessingJob (fst (convertToHLS_start r jobId now fs jobs)) jobId = Some (newJob r jobId now)
   \<and> job (snd (convertToHLS_start r jobId now fs jobs)) = newJob r jobId now
   \<and> status (newJob r jobId now) = processing
   \<and> progress (newJob r jobId now) = 0"
  by (simp add: convertToHLS_start_def getProcessingJob_def setJob_def newJob_def update_conv')

theorem job_created_pending_counterexample:
  "map_option (status_literal \<circ> status)
     (getProcessingJob (fst (convertToHLS_start scenarioRequest ''job-1'' 0 Map.empty [])) ''job-1'')
   \<noteq> Some ''pending''"
  by (simp add: convertToHLS_start_def getProcessingJob_def setJob_def newJob_def)

section \<open>The progress formula\<close>

text \<open>The four roundings of the handler stay within \<open>10^-12\<close> of the exact value.\<close>

lemma progress_double_err:
  assumes iN: "index < N" and p0: "0 \<le> p" and p1: "p \<le> 1"
  shows "\<bar>fl (fl (fl (of_nat index + fl p) / of_nat N) * 100)
            - 100 * (of_nat index + p) / of_nat N\<bar> \<le> 1 / 10 ^ 12"
proof -
  define u :: rat where "u = 1 / 2 ^ 53"
  define h :: rat where "h = 1 / 2 ^ 100"
  define n :: rat where "n = of_nat N"
  define i :: rat where "i = of_nat index"
  have u0: "0 \<le> u" and h0: "0 \<le> h" by (simp_all add: u_def h_def)
  have n1: "1 \<le> n" using iN by (simp add: n_def)
  have i0: "0 \<le> i" by (simp add: i_def)
  have "int index + 1 \<le> int N" using iN by simp
  then have "(of_int (int index + 1) :: rat) \<le> of_int (int N)" by (simp only: of_int_le_iff)
  then have in1: "i + 1 \<le> n" by (simp add: i_def n_def)
  have E: "\<And>x. \<bar>fl x - x\<bar> \<le> \<bar>x\<bar> * u + h"
    using fl_err by (simp add: u_def h_def)
  define r1 where "r1 = fl p"
  define r2 where "r2 = fl (i + r1)"
  define r3 where "r3 = fl (r2 / n)"
  define r4 where "r4 = fl (r3 * 100)"
  define d1 where "d1 = u + h"
  define d2 where "d2 = u + d1 * u + h + d1"
  define d3 where "d3 = d2 + (1 + d2) * u + h"
  define d4 where "d4 = 100 * d3 + (100 + 100 * d3) * u + h"
  have d10: "0 \<le> d1" using u0 h0 by (simp add: d1_def)
  have d20: "0 \<le> d2" using u0 h0 d10 by (simp add: d2_def)
  have d30: "0 \<le> d3" using u0 h0 d20 by (simp add: d3_def)
  have "\<bar>p\<bar> * u \<le> 1 * u" using p0 p1 u0 by (intro mult_right_mono) simp_all
  with E [of p] have e1: "\<bar>r1 - p\<bar> \<le> d1" by (simp add: r1_def d1_def)
  have b: "\<bar>i + r1\<bar> \<le> n + d1" using e1 i0 p0 p1 in1 by linarith
  have "\<bar>i + r1\<bar> * u \<le> (n + d1) * u" using b u0 by (rule mult_right_mono)
  with E [of "i + r1"] have "\<bar>r2 - (i + r1)\<bar> \<le> (n + d1) * u + h" by (simp add: r2_def)
  moreover have "(n + d1) * u = n * u + d1 * u" by (simp add: algebra_simps)
  ultimately have e2: "\<bar>r2 - (i + p)\<bar> \<le> n * u + d1 * u + h + d1" using e1 by linarith
  have npos: "0 < n" using n1 by linarith
  have "\<bar>r2 / n - (i + p) / n\<bar> = \<bar>r2 - (i + p)\<bar> / n"
    using npos by (simp add: diff_divide_distrib [symmetric])
  also have "\<dots> \<le> (n * u + d1 * u + h + d1) / n" using e2 npos by (simp add: divide_right_mono)
  also have "\<dots> = u + (d1 * u + h + d1) / n" using npos by (simp add: add_divide_distrib)
  also have "\<dots> \<le> u + (d1 * u + h + d1) / 1"
    using n1 u0 h0 d10 by (intro add_left_mono divide_left_mono) simp_all
  finally have c: "\<bar>r2 / n - (i + p) / n\<bar> \<le> d2" by (simp add: d2_def)
  define A where "A = (i + p) / n"
  have c': "\<bar>r2 / n - A\<bar> \<le> d2" using c by (simp add: A_def)
  have A0: "0 \<le> A" using i0 p0 npos by (simp add: A_def)
  have "i + p \<le> n" using in1 p1 by linarith
  then have A1: "A \<le> 1" using npos by (simp add: A_def)
  have cb: "\<bar>r2 / n\<bar> \<le> 1 + d2" using c' A0 A1 by linarith
  have "\<bar>r2 / n\<bar> * u \<le> (1 + d2) * u" using cb u0 by (rule mult_right_mono)
  with E [of "r2 / n"] have "\<bar>r3 - r2 / n\<bar> \<le> (1 + d2) * u + h" by (simp add: r3_def)
  with c' have e3: "\<bar>r3 - A\<bar> \<le> d3" unfolding d3_def by linarith
  have m: "\<bar>r3 * 100 - 100 * A\<bar> \<le> 100 * d3" using e3 by linarith
  have r3b: "\<bar>r3 * 100\<bar> \<le> 100 + 100 * d3" using e3 A0 A1 by linarith
  then have "\<bar>r3 * 100\<bar> * u \<le> (100 + 100 * d3) * u" using u0 by (rule mult_right_mono)
  with E [of "r3 * 100"] have "\<bar>r4 - r3 * 100\<bar> \<le> (100 + 100 * d3) * u + h" by (simp add: r4_def)
  with m have e4: "\<bar>r4 - 100 * A\<bar> \<le> d4" unfolding d4_def by linarith
  have "d4 \<le> 1 / 10 ^ 12"
    by (simp add: d4_def d3_def d2_def d1_def u_def h_def)
  with e4 have "\<bar>r4 - 100 * A\<bar> \<le> 1 / 10 ^ 12" by linarith
  moreover have "fl (fl (fl (of_nat index + fl p) / of_nat N) * 100) = r4"
    by (simp add: r4_def r3_def r2_def r1_def i_def n_def)
  moreover have "100 * (of_nat index + p) / of_nat N = 100 * A"
    by (simp add: A_def i_def n_def)
  ultimately show ?thesis by (simp only:)
qed

lemma running_index:
  assumes "running (convertToHLS r jobId t0 fs evs) index"
  shows "index < length (ladder r)"
proof -
  have "inv r fs (convertToHLS r jobId t0 fs evs)" by (rule inv_convertToHLS)
  then have "length (promises (convertToHLS r jobId t0 fs evs)) = length (ladder r)"
    by (simp add: inv_def)
  with assms show ?thesis by (simp add: running_def)
qed

text \<open>
  C8, as the code has it. When the encoder of the rendition at ladder index \<open>index\<close> is
  running and reports the fraction \<open>p\<close> in \<open>[0, 1]\<close> (a percentage \<open>100 * p\<close>), the
  progress stored in the job is the integer nearest to the value of the formula computed in
  doubles. It is within \<open>1/2 + 10^-12\<close> of \<open>100 * (index + p) / N\<close>, and it is
  \<open>round (100 * (index + p) / N)\<close> whenever no half-integer lies within \<open>10^-12\<close> of
  \<open>100 * (index + p) / N\<close>. At a tie the rounding of the doubles can decide otherwise: at
  index 4 of 5 and 97.5 percent the job stores 99, and the formula gives 100.
\<close>

theorem progress_near_formula:
  assumes "running (convertToHLS r jobId t0 fs evs) index" and "0 \<le> p" and "p \<le> 1"
  shows "\<bar>of_int (progress (job (step r t (Progress index (Some (100 * p)))
                                      (convertToHLS r jobId t0 fs evs))))
           - 100 * (of_nat index + p) / of_nat (length (ladder r))\<bar> \<le> 1 / 2 + 1 / 10 ^ 12
       \<and> (\<lfloor>100 * (of_nat index + p) / of_nat (length (ladder r)) + 1 / 2 - 1 / 10 ^ 12\<rfloor>
            = \<lfloor>100 * (of_nat index + p) / of_nat (length (ladder r)) + 1 / 2 + 1 / 10 ^ 12\<rfloor> \<longrightarrow>
          progress (job (step r t (Progress index (Some (100 * p)))
                           (convertToHLS r jobId t0 fs evs)))
            = spec_jobProgress index p (length (ladder r)))"
proof -
  let ?N = "length (ladder r)"
  let ?x = "100 * (of_nat index + p) / of_nat ?N :: rat"
  let ?v = "fl (fl (fl (of_nat index + fl p) / of_nat ?N) * 100)"
  have iN: "index < ?N" using assms(1) by (rule running_index)
  have st: "progress (job (step r t (Progress index (Some (100 * p)))
                             (convertToHLS r jobId t0 fs evs))) = Math_round ?v"
    using assms(1) by (simp add: onProgress_def overallProgress_def orZero_def)
  have e: "\<bar>?v - ?x\<bar> \<le> 1 / 10 ^ 12" using iN assms(2,3) by (rule progress_double_err)
  have f: "of_int (Math_round ?v) \<le> ?v + 1 / 2" "?v + 1 / 2 < of_int (Math_round ?v) + 1"
    unfolding Math_round_def by linarith+
  from e f have a: "\<bar>of_int (Math_round ?v) - ?x\<bar> \<le> 1 / 2 + 1 / 10 ^ 12" by linarith
  have b: "\<lfloor>?x + 1 / 2 - 1 / 10 ^ 12\<rfloor> = \<lfloor>?x + 1 / 2 + 1 / 10 ^ 12\<rfloor> \<longrightarrow>
            Math_round ?v = spec_jobProgress index p ?N"
  proof
    assume eq: "\<lfloor>?x + 1 / 2 - 1 / 10 ^ 12\<rfloor> = \<lfloor>?x + 1 / 2 + 1 / 10 ^ 12\<rfloor>"
    have "\<lfloor>?x + 1 / 2 - 1 / 10 ^ 12\<rfloor> \<le> \<lfloor>?v + 1 / 2\<rfloor>" using e by (intro floor_mono) linarith
    moreover have "\<lfloor>?v + 1 / 2\<rfloor> \<le> \<lfloor>?x + 1 / 2 + 1 / 10 ^ 12\<rfloor>" using e by (intro floor_mono) linarith
    moreover have "\<lfloor>?x + 1 / 2 - 1 / 10 ^ 12\<rfloor> \<le> \<lfloor>?x + 1 / 2\<rfloor>" by (intro floor_mono) simp
    moreover have "\<lfloor>?x + 1 / 2\<rfloor> \<le> \<lfloor>?x + 1 / 2 + 1 / 10 ^ 12\<rfloor>" by (intro floor_mono) simp
    ultimately have "\<lfloor>?v + 1 / 2\<rfloor> = \<lfloor>?x + 1 / 2\<rfloor>" using eq by linarith
    then show "Math_round ?v = spec_jobProgress index p ?N"
      by (simp add: Math_round_def spec_jobProgress_def round_def)
  qed
  from a b show ?thesis unfolding st by blast
qed

theorem progress_near_formula_witness:
  "running (convertToHLS defaultRequest ''job-1'' 0 Map.empty []) 3 \<and> (0::rat) \<le> 1 / 2 \<and> (1 / 2 :: rat) \<le> 1 \<and>
   progress (job (step defaultRequest 1 (Progress 3 (Some (100 * (1 / 2))))
                    (convertToHLS defaultRequest ''job-1'' 0 Map.empty []))) = 70 \<and>
   spec_jobProgress 3 (1 / 2) (length (ladder defaultRequest)) = 70"
proof -
  have r: "running (convertToHLS defaultRequest ''job-1'' 0 Map.empty []) 3"
    by (simp add: pipeline_defs defaultRequest_def BITRATE_LADDER_def)
  have n: "length (ladder defaultRequest) = 5" by (simp add: defaultRequest_def BITRATE_LADDER_def)
  have x: "100 * (of_nat 3 + 1 / 2) / of_nat 5 = (70::rat)" by simp
  have f1: "\<lfloor>(70::rat) + 1 / 2 - 1 / 10 ^ 12\<rfloor> = 70" by (rule floor_unique) simp_all
  have f2: "\<lfloor>(70::rat) + 1 / 2 + 1 / 10 ^ 12\<rfloor> = 70" by (rule floor_unique) simp_all
  have v: "spec_jobProgress 3 (1 / 2) (length (ladder defaultRequest)) = 70"
  proof -
    have "\<lfloor>141 / 2 :: rat\<rfloor> = 70" by (rule floor_unique) simp_all
    then show ?thesis by (simp add: spec_jobProgress_def n round_def)
  qed
  have h: "(0::rat) \<le> 1 / 2" "(1 / 2 :: rat) \<le> 1" by simp_all
  from progress_near_formula [OF r h, of 1]
  have "\<lfloor>100 * (of_nat 3 + 1 / 2) / of_nat (length (ladder defaultRequest)) + 1 / 2 - 1 / 10 ^ 12 :: rat\<rfloor>
            = \<lfloor>100 * (of_nat 3 + 1 / 2) / of_nat (length (ladder defaultRequest)) + 1 / 2 + 1 / 10 ^ 12 :: rat\<rfloor> \<longrightarrow>
        progress (job (step defaultRequest 1 (Progress 3 (Some (100 * (1 / 2))))
                    (convertToHLS defaultRequest ''job-1'' 0 Map.empty [])))
          = spec_jobProgress 3 (1 / 2) (length (ladder defaultRequest))"
    by (rule conjunct2)
  moreover have "\<lfloor>100 * (of_nat 3 + 1 / 2) / of_nat (length (ladder defaultRequest)) + 1 / 2 - 1 / 10 ^ 12 :: rat\<rfloor>
            = \<lfloor>100 * (of_nat 3 + 1 / 2) / of_nat (length (ladder defaultRequest)) + 1 / 2 + 1 / 10 ^ 12 :: rat\<rfloor>"
    unfolding n x f1 f2 ..
  ultimately have "progress (job (step defaultRequest 1 (Progress 3 (Some (100 * (1 / 2))))
                    (convertToHLS defaultRequest ''job-1'' 0 Map.empty [])))
          = spec_jobProgress 3 (1 / 2) (length (ladder defaultRequest))" by blast
  with v r h show ?thesis by (simp only:)
qed

text \<open>
  The formula as the claim writes it fails at a tie: index 4 of 5 at 97.5 percent is
  99.5 exactly, the doubles give a value just below, and the job stores 99.
\<close>

theorem progress_formula_counterexample:
  "progress (job (step defaultRequest 1 (Progress 4 (Some (100 * (39 / 40))))
                    (convertToHLS defaultRequest ''job-1'' 0 Map.empty [])))
     \<noteq> spec_jobProgress 4 (39 / 40) (length (ladder defaultRequest))"
proof -
  have r: "running (convertToHLS defaultRequest ''job-1'' 0 Map.empty []) 4"
    by (simp add: pipeline_defs defaultRequest_def BITRATE_LADDER_def)
  have n: "length (ladder defaultRequest) = 5" by (simp add: defaultRequest_def BITRATE_LADDER_def)
  have "progress (job (step defaultRequest 1 (Progress 4 (Some (100 * (39 / 40))))
                    (convertToHLS defaultRequest ''job-1'' 0 Map.empty []))) = 99"
    using r by (simp add: onProgress_def n overallProgress_4_97)
  moreover have "spec_jobProgress 4 (39 / 40) (length (ladder defaultRequest)) = 100"
    by (simp add: spec_jobProgress_def n round_def)
  ultimately show ?thesis by simp
qed

section \<open>The stored progress\<close>

lemma completed_step:
  assumes "inv r fs s" and "status (job s) = completed"
  shows "step r t ev s = s"
proof -
  from assms have ph: "phase s = Resolved (outputPaths (job s))" by (rule completed_phase)
  with assms(1) have "allFulfilled s" by (simp add: inv_def)
  then have "\<And>i. \<not> running s i" using running_not_allFulfilled by blast
  with ph show ?thesis by (cases ev) simp_all
qed

lemma completed_run:
  assumes "inv r fs s" and "status (job s) = completed"
  shows "run r s evs = s"
  using assms by (induction evs) (auto simp: completed_step)

text \<open>An event other than a progress event changes the progress only by completing the job.\<close>

lemma other_step_progress:
  assumes "\<not> isProgress ev" and "status (job (step r t ev s)) \<noteq> completed"
  shows "progress (job (step r t ev s)) = progress (job s)"
  using assms
  by (cases ev)
     (auto simp: onEnd_def onError_def resolveVariant_def rejectVariant_def catchBranch_def
        afterMasterPlaylist_def generateMasterPlaylist_def afterThumbnail_def Let_def
        split: if_splits)

lemma other_run_progress:
  assumes "inv r fs s" and "\<forall>(t, ev) \<in> set evs. \<not> isProgress ev"
    and "status (job (run r s evs)) \<noteq> completed"
  shows "progress (job (run r s evs)) = progress (job s)"
  using assms
proof (induction evs arbitrary: s)
  case Nil
  then show ?case by simp
next
  case (Cons e evs)
  obtain t ev where e: "e = (t, ev)" by (cases e)
  let ?s = "step r t ev s"
  have i: "inv r fs ?s" using Cons.prems(1) by (rule inv_step)
  have f: "run r s (e # evs) = run r ?s evs" by (simp add: e)
  have n: "\<not> isProgress ev" using Cons.prems(2) e by simp
  have nc: "status (job ?s) \<noteq> completed"
  proof
    assume "status (job ?s) = completed"
    with i have "run r ?s evs = ?s" by (rule completed_run)
    with Cons.prems(3) f \<open>status (job ?s) = completed\<close> show False by simp
  qed
  have "progress (job (run r ?s evs)) = progress (job ?s)"
    using i Cons.prems(2,3) f by (intro Cons.IH) simp_all
  also have "\<dots> = progress (job s)" using n nc by (rule other_step_progress)
  finally show ?case by (simp add: f)
qed

text \<open>
  The stored progress decreases when a rendition of a lower index reports after one of a
  higher index, and a failed job can hold 100.
\<close>

theorem progress_monotone_counterexample:
  "progress (job (convertToHLS defaultRequest ''job-1'' 0 Map.empty
       [(1, Progress 3 (Some 50)), (2, Progress 0 (Some 10))]))
     < progress (job (convertToHLS defaultRequest ''job-1'' 0 Map.empty [(1, Progress 3 (Some 50))]))
   \<and> status (job (convertToHLS defaultRequest ''job-1'' 0 Map.empty
       [(1, Progress 4 (Some 100)), (2, Err 0 (Error ''Conversion failed!''))])) = failed
   \<and> progress (job (convertToHLS defaultRequest ''job-1'' 0 Map.empty
       [(1, Progress 4 (Some 100)), (2, Err 0 (Error ''Conversion failed!''))])) = 100"
  by (simp add: pipeline_defs defaultRequest_def BITRATE_LADDER_def Suc5 overallProgress_3_50
      overallProgress_0_10 overallProgress_4_100)

text \<open>
  C3, as the code has it. A progress event of a running rendition overwrites the stored
  progress with the value the handler computes from that event alone, whatever the stored
  value was, and the stored progress keeps that value through the events that follow until
  the next progress event or the completion of the job; so the stored progress can
  decrease. A job that is completed has progress exactly 100.
\<close>

theorem progress_overwritten_and_final:
  assumes "running (convertToHLS r jobId t0 fs evs) i"
    and "\<forall>(t', ev) \<in> set evs'. \<not> isProgress ev"
  shows "(status (job (convertToHLS r jobId t0 fs (evs @ (t, Progress i p) # evs'))) \<noteq> completed \<longrightarrow>
            progress (job (convertToHLS r jobId t0 fs (evs @ (t, Progress i p) # evs')))
              = overallProgress i p (length (ladder r)))
       \<and> (status (job (convertToHLS r' jobId' t0' fs' evs0)) = completed \<longrightarrow>
            progress (job (convertToHLS r' jobId' t0' fs' evs0)) = 100)"
proof -
  let ?s = "convertToHLS r jobId t0 fs evs"
  let ?s1 = "step r t (Progress i p) ?s"
  let ?s' = "convertToHLS r jobId t0 fs (evs @ (t, Progress i p) # evs')"
  let ?c = "convertToHLS r' jobId' t0' fs' evs0"
  have s': "?s' = run r ?s1 evs'" by (simp add: convertToHLS_def run_append)
  have i1: "inv r fs ?s1" using inv_convertToHLS by (rule inv_step)
  have p1: "progress (job ?s1) = overallProgress i p (length (ladder r))"
    using assms(1) by (simp add: onProgress_def)
  have a: "status (job ?s') \<noteq> completed \<longrightarrow>
             progress (job ?s') = overallProgress i p (length (ladder r))"
  proof
    assume "status (job ?s') \<noteq> completed"
    then have nc: "status (job (run r ?s1 evs')) \<noteq> completed" unfolding s' .
    have "progress (job (run r ?s1 evs')) = progress (job ?s1)"
      using i1 assms(2) nc by (rule other_run_progress)
    with p1 show "progress (job ?s') = overallProgress i p (length (ladder r))"
      unfolding s' by simp
  qed
  have b: "status (job ?c) = completed \<longrightarrow> progress (job ?c) = 100"
  proof
    have ic: "inv r' fs' ?c" by (rule inv_convertToHLS)
    assume "status (job ?c) = completed"
    with ic have "phase ?c = Resolved (outputPaths (job ?c))" by (rule completed_phase)
    with ic show "progress (job ?c) = 100" by (simp add: inv_def)
  qed
  from a b show ?thesis by blast
qed

theorem progress_overwritten_and_final_witness:
  "running (convertToHLS defaultRequest ''job-1'' 0 Map.empty [(1, Progress 3 (Some 50))]) 0 \<and>
   \<not> isProgress (End 1) \<and> \<not> isProgress (Err 2 (Error ''Conversion failed!'')) \<and>
   progress (job (convertToHLS defaultRequest ''job-1'' 0 Map.empty [(1, Progress 3 (Some 50))])) = 70 \<and>
   status (job (convertToHLS defaultRequest ''job-1'' 0 Map.empty
      ([(1, Progress 3 (Some 50))] @ (2, Progress 0 (Some 10))
         # [(3, End 1), (4, Err 2 (Error ''Conversion failed!''))]))) = failed \<and>
   progress (job (convertToHLS defaultRequest ''job-1'' 0 Map.empty
      ([(1, Progress 3 (Some 50))] @ (2, Progress 0 (Some 10))
         # [(3, End 1), (4, Err 2 (Error ''Conversion failed!''))]))) = 2 \<and>
   status (job (convertToHLS scenarioRequest ''job-1'' 0 Map.empty scenarioEvents)) = completed \<and>
   progress (job (convertToHLS scenarioRequest ''job-1'' 0 Map.empty scenarioEvents)) = 100"
proof -
  have r: "running (convertToHLS defaultRequest ''job-1'' 0 Map.empty [(1, Progress 3 (Some 50))]) 0"
    by (simp add: pipeline_defs defaultRequest_def BITRATE_LADDER_def)
  have n: "\<forall>(t', ev) \<in> set [(3::int, End 1), (4, Err 2 (Error ''Conversion failed!''))]. \<not> isProgress ev"
    by simp
  have b: "progress (job (convertToHLS defaultRequest ''job-1'' 0 Map.empty [(1, Progress 3 (Some 50))])) = 70"
    by (simp add: pipeline_defs defaultRequest_def BITRATE_LADDER_def Suc5 overallProgress_3_50)
  have f: "status (job (convertToHLS defaultRequest ''job-1'' 0 Map.empty
      ([(1, Progress 3 (Some 50))] @ (2, Progress 0 (Some 10))
         # [(3, End 1), (4, Err 2 (Error ''Conversion failed!''))]))) = failed"
    by (simp add: pipeline_defs defaultRequest_def BITRATE_LADDER_def)
  have v: "overallProgress 0 (Some 10) (length (ladder defaultRequest)) = 2"
    by (simp add: defaultRequest_def BITRATE_LADDER_def Suc5 overallProgress_0_10)
  note T = progress_overwritten_and_final
             [OF r n, of 2 "Some 10" scenarioRequest "''job-1''" 0 Map.empty scenarioEvents]
  from T f v
  have a: "progress (job (convertToHLS defaultRequest ''job-1'' 0 Map.empty
      ([(1, Progress 3 (Some 50))] @ (2, Progress 0 (Some 10))
         # [(3, End 1), (4, Err 2 (Error ''Conversion failed!''))]))) = 2" by simp
  from T scenario_completed
  have d: "progress (job (convertToHLS scenarioRequest ''job-1'' 0 Map.empty scenarioEvents)) = 100"
    by blast
  have n': "\<not> isProgress (End 1)" "\<not> isProgress (Err 2 (Error ''Conversion failed!''))"
    by simp_all
  from r n' b f a scenario_completed d show ?thesis by blast
qed

section \<open>Output paths and the thumbnail\<close>


text \<open>
  C10. At every point of every run, the \<open>outputPaths\<close> of a job that is not completed is
  empty, so it is empty for every failed job, even after variant playlists were written;
  for a completed job it is the whole list collected by the function: every variant
  playlist, the master playlist, and at most the thumbnail besides.
\<close>

theorem outputPaths_only_on_completion:
  "(status (job (convertToHLS r jobId t0 fs evs)) \<noteq> completed \<longrightarrow>
      outputPaths (job (convertToHLS r jobId t0 fs evs)) = [])
   \<and> (status (job (convertToHLS r jobId t0 fs evs)) = completed \<longrightarrow>
        outputPaths (job (convertToHLS r jobId t0 fs evs))
          = localOutputPaths (convertToHLS r jobId t0 fs evs)
        \<and> playlistPath r ` {..<length (ladder r)} \<union> {masterPlaylistPath r}
            \<subseteq> set (outputPaths (job (convertToHLS r jobId t0 fs evs)))
        \<and> set (outputPaths (job (convertToHLS r jobId t0 fs evs)))
            \<subseteq> playlistPath r ` {..<length (ladder r)} \<union> {masterPlaylistPath r, thumbnailPath r})"
proof -
  let ?s = "convertToHLS r jobId t0 fs evs"
  have i: "inv r fs ?s" by (rule inv_convertToHLS)
  have p: "pathsInv r ?s" by (rule pathsInv_convertToHLS)
  have a: "status (job ?s) \<noteq> completed \<longrightarrow> outputPaths (job ?s) = []"
    using i by (cases "phase ?s") (auto simp: inv_def)
  have b: "status (job ?s) = completed \<longrightarrow>
        outputPaths (job ?s) = localOutputPaths ?s
        \<and> playlistPath r ` {..<length (ladder r)} \<union> {masterPlaylistPath r} \<subseteq> set (outputPaths (job ?s))
        \<and> set (outputPaths (job ?s))
            \<subseteq> playlistPath r ` {..<length (ladder r)} \<union> {masterPlaylistPath r, thumbnailPath r}"
  proof
    assume c: "status (job ?s) = completed"
    with i have ph: "phase ?s = Resolved (outputPaths (job ?s))" by (rule completed_phase)
    with i have "outputPaths (job ?s) = localOutputPaths ?s" by (simp add: inv_def)
    moreover from ph p have "artifacts r \<subseteq> set (outputPaths (job ?s))"
      "set (outputPaths (job ?s)) \<subseteq> artifacts r \<union> {thumbnailPath r}"
      by (simp_all add: pathsInv_def)
    ultimately show "outputPaths (job ?s) = localOutputPaths ?s
        \<and> playlistPath r ` {..<length (ladder r)} \<union> {masterPlaylistPath r} \<subseteq> set (outputPaths (job ?s))
        \<and> set (outputPaths (job ?s))
            \<subseteq> playlistPath r ` {..<length (ladder r)} \<union> {masterPlaylistPath r, thumbnailPath r}"
      by (auto simp: artifacts_def)
  qed
  from a b show ?thesis by blast
qed

theorem outputPaths_only_on_completion_witness:
  "status (job (convertToHLS scenarioRequest ''job-1'' 0 Map.empty
      (failureEvents @ [(3, Err 1 (Error ''Conversion failed!''))]))) = failed \<and>
   localOutputPaths (convertToHLS scenarioRequest ''job-1'' 0 Map.empty
      (failureEvents @ [(3, Err 1 (Error ''Conversion failed!''))])) = [''hls/v1/240p/playlist.m3u8''] \<and>
   outputPaths (job (convertToHLS scenarioRequest ''job-1'' 0 Map.empty
      (failureEvents @ [(3, Err 1 (Error ''Conversion failed!''))]))) = [] \<and>
   status (job (convertToHLS scenarioRequest ''job-1'' 0 Map.empty scenarioEvents)) = completed \<and>
   outputPaths (job (convertToHLS scenarioRequest ''job-1'' 0 Map.empty scenarioEvents)) =
     [''hls/v1/360p/playlist.m3u8'', ''hls/v1/240p/playlist.m3u8'', ''hls/v1/master.m3u8'',
      ''hls/v1/thumbnail.jpg'']"
proof -
  let ?f = "convertToHLS scenarioRequest ''job-1'' 0 Map.empty
      (failureEvents @ [(3, Err 1 (Error ''Conversion failed!''))])"
  let ?c = "convertToHLS scenarioRequest ''job-1'' 0 Map.empty scenarioEvents"
  have f: "status (job ?f) = failed"
    by (simp add: pipeline_defs scenarioRequest_def scenarioLadder_def failureEvents_def)
  have l: "localOutputPaths ?f = [''hls/v1/240p/playlist.m3u8'']"
    by (simp add: pipeline_defs scenarioRequest_def scenarioLadder_def failureEvents_def
        playlistPath_def path_join_def)
  have lc: "localOutputPaths ?c =
     [''hls/v1/360p/playlist.m3u8'', ''hls/v1/240p/playlist.m3u8'', ''hls/v1/master.m3u8'',
      ''hls/v1/thumbnail.jpg'']"
    by (simp add: pipeline_defs scenarioRequest_def scenarioLadder_def scenarioEvents_def
        playlistPath_def masterPlaylistPath_def thumbnailPath_def path_join_def)
  from outputPaths_only_on_completion
         [of scenarioRequest "''job-1''" 0 Map.empty
             "failureEvents @ [(3, Err 1 (Error ''Conversion failed!''))]"] f
  have e: "outputPaths (job ?f) = []" by simp
  from outputPaths_only_on_completion [of scenarioRequest "''job-1''" 0 Map.empty scenarioEvents]
       scenario_completed lc
  have o: "outputPaths (job ?c) =
     [''hls/v1/360p/playlist.m3u8'', ''hls/v1/240p/playlist.m3u8'', ''hls/v1/master.m3u8'',
      ''hls/v1/thumbnail.jpg'']" by simp
  from f l e o scenario_completed show ?thesis by blast
qed

text \<open>
  C7. When the renditions and the master playlist are done and the thumbnail is awaited, a
  failing thumbnail command and a succeeding one lead to the same status \<open>completed\<close>, the
  same progress 100 and the same \<open>completedAt\<close>; after the failure the function has
  returned its paths (no error reaches it) and the thumbnail path is not among them.
\<close>

theorem thumbnail_failure_harmless:
  assumes "phase (convertToHLS r jobId t0 fs evs) = AwaitThumbnail"
  shows "status (job (convertToHLS r jobId t0 fs (evs @ [(t, ThumbnailError e)]))) = completed
       \<and> progress (job (convertToHLS r jobId t0 fs (evs @ [(t, ThumbnailError e)]))) = 100
       \<and> completedAt (job (convertToHLS r jobId t0 fs (evs @ [(t, ThumbnailError e)]))) = Some t
       \<and> status (job (convertToHLS r jobId t0 fs (evs @ [(t, ThumbnailEnd)]))) = completed
       \<and> progress (job (convertToHLS r jobId t0 fs (evs @ [(t, ThumbnailEnd)]))) = 100
       \<and> completedAt (job (convertToHLS r jobId t0 fs (evs @ [(t, ThumbnailEnd)]))) = Some t
       \<and> phase (convertToHLS r jobId t0 fs (evs @ [(t, ThumbnailError e)]))
           = Resolved (outputPaths (job (convertToHLS r jobId t0 fs (evs @ [(t, ThumbnailError e)]))))
       \<and> thumbnailPath r
           \<notin> set (outputPaths (job (convertToHLS r jobId t0 fs (evs @ [(t, ThumbnailError e)]))))
       \<and> outputPaths (job (convertToHLS r jobId t0 fs (evs @ [(t, ThumbnailEnd)])))
           = outputPaths (job (convertToHLS r jobId t0 fs (evs @ [(t, ThumbnailError e)])))
             @ [thumbnailPath r]"
proof -
  let ?s = "convertToHLS r jobId t0 fs evs"
  have p: "pathsInv r ?s" by (rule pathsInv_convertToHLS)
  with assms have "set (localOutputPaths ?s) = artifacts r" by (simp add: pathsInv_def)
  then have n: "thumbnailPath r \<notin> set (localOutputPaths ?s)"
    using thumbnail_not_artifact by simp
  have "\<And>ev. convertToHLS r jobId t0 fs (evs @ [(t, ev)]) = step r t ev ?s"
    by (simp add: convertToHLS_def run_append)
  with assms n show ?thesis
    by (simp add: afterThumbnail_def Let_def)
qed

theorem thumbnail_failure_harmless_witness:
  "phase (convertToHLS scenarioRequest ''job-1'' 0 Map.empty (butlast scenarioEvents)) = AwaitThumbnail \<and>
   job (convertToHLS scenarioRequest ''job-1'' 0 Map.empty
          (butlast scenarioEvents @ [(5, ThumbnailError (Error ''ffmpeg exited with code 1''))])) =
     \<lparr>job_id = ''job-1'', videoId = ''v1'', status = completed, progress = 100,
      startedAt = Some 0, completedAt = Some 5, error = None,
      outputPaths = [''hls/v1/360p/playlist.m3u8'', ''hls/v1/240p/playlist.m3u8'', ''hls/v1/master.m3u8'']\<rparr>"
proof -
  have a: "phase (convertToHLS scenarioRequest ''job-1'' 0 Map.empty (butlast scenarioEvents)) = AwaitThumbnail"
    by (simp add: pipeline_defs scenarioRequest_def scenarioLadder_def scenarioEvents_def)
  have j: "job (convertToHLS scenarioRequest ''job-1'' 0 Map.empty
          (butlast scenarioEvents @ [(5, ThumbnailError (Error ''ffmpeg exited with code 1''))])) =
      \<lparr>job_id = ''job-1'', videoId = ''v1'',
       status = status (job (convertToHLS scenarioRequest ''job-1'' 0 Map.empty
          (butlast scenarioEvents @ [(5, ThumbnailError (Error ''ffmpeg exited with code 1''))]))),
       progress = progress (job (convertToHLS scenarioRequest ''job-1'' 0 Map.empty
          (butlast scenarioEvents @ [(5, ThumbnailError (Error ''ffmpeg exited with code 1''))]))),
       startedAt = Some 0,
       completedAt = completedAt (job (convertToHLS scenarioRequest ''job-1'' 0 Map.empty
          (butlast scenarioEvents @ [(5, ThumbnailError (Error ''ffmpeg exited with code 1''))]))),
       error = None,
       outputPaths = [''hls/v1/360p/playlist.m3u8'', ''hls/v1/240p/playlist.m3u8'', ''hls/v1/master.m3u8'']\<rparr>"
    by (simp add: pipeline_defs scenarioRequest_def scenarioLadder_def scenarioEvents_def
        playlistPath_def masterPlaylistPath_def path_join_def)
  from thumbnail_failure_harmless [OF a, of 5 "Error ''ffmpeg exited with code 1''"]
  have "status (job (convertToHLS scenarioRequest ''job-1'' 0 Map.empty
          (butlast scenarioEvents @ [(5, ThumbnailError (Error ''ffmpeg exited with code 1''))]))) = completed"
    "progress (job (convertToHLS scenarioRequest ''job-1'' 0 Map.empty
          (butlast scenarioEvents @ [(5, ThumbnailError (Error ''ffmpeg exited with code 1''))]))) = 100"
    "completedAt (job (convertToHLS scenarioRequest ''job-1'' 0 Map.empty
          (butlast scenarioEvents @ [(5, ThumbnailError (Error ''ffmpeg exited with code 1''))]))) = Some 5"
    by blast+
  with j a show ?thesis by simp
qed

section \<open>A failing or partial probe\<close>

lemma parseInt_zero: "parseInt ''0'' = Some 0"
  by (simp add: parseInt_def isWhiteSpace_def isDigitOf_def digitVal_def digitsValue_def)

text \<open>
  C9. When the prober fails (the \<open>ffprobe\<close> call fails, or it reports no video stream),
  \<open>uploadVideo\<close> does not fail: it stores the metadata it had prepared, with duration 0,
  width 0, height 0, bitrate 0, codec \<open>unknown\<close> and frame rate 0. When the prober
  succeeds, each of these fields that \<open>ffprobe\<close> did not report has that same value in
  the stored metadata.
\<close>

theorem probe_failure_keeps_defaults:
  "(getVideoMetadata ffprobe = Inl err \<longrightarrow>
      (\<exists>vm. uploadVideo (Some file) vid now ffprobe = Inr vm \<and> vm = initialMetadata file vid now
         \<and> duration vm = 0 \<and> width vm = 0 \<and> height vm = 0 \<and> bitrate vm = Some 0
         \<and> codec vm = ''unknown'' \<and> frameRate vm = Finite 0))
   \<and> (ffprobe = Inr metadata \<and>
        find (\<lambda>s. codec_type s = Some ''video'') (streams metadata) = Some vs \<longrightarrow>
      (\<exists>vm. uploadVideo (Some file) vid now ffprobe = Inr vm
         \<and> (format_duration (format metadata) = None \<longrightarrow> duration vm = 0)
         \<and> (stream_width vs = None \<longrightarrow> width vm = 0)
         \<and> (stream_height vs = None \<longrightarrow> height vm = 0)
         \<and> (bit_rate (format metadata) = None \<longrightarrow> bitrate vm = Some 0)
         \<and> (codec_name vs = None \<longrightarrow> codec vm = ''unknown'')
         \<and> (r_frame_rate vs = None \<longrightarrow> frameRate vm = Finite 0)))"
  by (auto simp: uploadVideo_def getVideoMetadata_def initialMetadata_def assignProbed_def Let_def
      orZero_def orString_def parseInt_zero parseFrameRate_def)

theorem probe_failure_keeps_defaults_witness:
  "getVideoMetadata (Inl (Error ''ffprobe exited with code 1''))
     = Inl (Error ''ffprobe exited with code 1'') \<and>
   uploadVideo (Some uploadedFile) ''v1'' 7 (Inl (Error ''ffprobe exited with code 1''))
     = Inr (initialMetadata uploadedFile ''v1'' 7) \<and>
   find (\<lambda>s. codec_type s = Some ''video'') (streams bareProbe) = Some bareStream \<and>
   stream_width bareStream = None \<and> stream_height bareStream = None \<and>
   bit_rate (format bareProbe) = None \<and> r_frame_rate bareStream = None \<and>
   (\<exists>vm. uploadVideo (Some uploadedFile) ''v1'' 7 (Inr bareProbe) = Inr vm
      \<and> duration vm = 25 / 2 \<and> codec vm = ''h264''
      \<and> width vm = 0 \<and> height vm = 0 \<and> bitrate vm = Some 0 \<and> frameRate vm = Finite 0)"
proof -
  have g: "getVideoMetadata (Inl (Error ''ffprobe exited with code 1''))
             = Inl (Error ''ffprobe exited with code 1'')"
    by (simp add: getVideoMetadata_def)
  have f: "find (\<lambda>s. codec_type s = Some ''video'') (streams bareProbe) = Some bareStream"
    by (simp add: bareProbe_def bareStream_def)
  have n: "stream_width bareStream = None" "stream_height bareStream = None"
    "bit_rate (format bareProbe) = None" "r_frame_rate bareStream = None"
    by (simp_all add: bareProbe_def bareStream_def)
  from probe_failure_keeps_defaults
         [of "Inl (Error ''ffprobe exited with code 1'')" "Error ''ffprobe exited with code 1''"
             uploadedFile "''v1''" 7] g
  have a: "uploadVideo (Some uploadedFile) ''v1'' 7 (Inl (Error ''ffprobe exited with code 1''))
             = Inr (initialMetadata uploadedFile ''v1'' 7)"
    by blast
  from probe_failure_keeps_defaults
         [of "Inr bareProbe" _ uploadedFile "''v1''" 7 bareProbe bareStream] f n
  obtain vm where vm: "uploadVideo (Some uploadedFile) ''v1'' 7 (Inr bareProbe) = Inr vm"
    "width vm = 0" "height vm = 0" "bitrate vm = Some 0" "frameRate vm = Finite 0"
    by blast
  from vm(1) have "duration vm = 25 / 2" "codec vm = ''h264''"
    by (auto simp: uploadVideo_def getVideoMetadata_def assignProbed_def Let_def bareProbe_def
        bareStream_def orZero_def orString_def)
  with vm have "\<exists>vm. uploadVideo (Some uploadedFile) ''v1'' 7 (Inr bareProbe) = Inr vm
      \<and> duration vm = 25 / 2 \<and> codec vm = ''h264''
      \<and> width vm = 0 \<and> height vm = 0 \<and> bitrate vm = Some 0 \<and> frameRate vm = Finite 0"
    by blast
  with g a f n show ?thesis by blast
qed

end
